theory Spec2Isabelle
  imports Complex_Main "HOL-Library.Sublist"
begin

section \<open>Data model\<close>

text \<open>
  The two modules work on a pandas DataFrame with a timestamp index and floating-point
  columns. A column is a list of cells; a cell is \<open>Some x\<close> for a number and \<open>None\<close> for
  NaN (pandas' missing value). Numbers are exact reals. Timestamps are seconds since the
  epoch. A frame holds the index and the named columns in column order.
\<close>

type_synonym series = "real option list"

record frame =
  index :: "int list"
  cols :: "(string \<times> series) list"

datatype error =
    KeyError string
  | ValueError string
  | ZeroDivisionError
  | FileNotFoundError string
  | IsADirectoryError string
  | ParserError string

text \<open>Every column of a DataFrame has one cell per index entry, and \<open>df[col]\<close> is one column.\<close>

definition aligned :: "frame \<Rightarrow> bool" where
  "aligned df = (list_all (\<lambda>(n, s). length s = length (index df)) (cols df)
                 \<and> distinct (map fst (cols df)))"

definition getitem :: "frame \<Rightarrow> string \<Rightarrow> error + series" where
  "getitem df col = (case map_of (cols df) col of
                       None \<Rightarrow> Inl (KeyError col)
                     | Some s \<Rightarrow> Inr s)"

text \<open>\<open>df[mask]\<close>: the rows whose mask entry is True, in every column and in the index.\<close>

definition select_rows :: "bool list \<Rightarrow> 'a list \<Rightarrow> 'a list" where
  "select_rows keep xs = map fst (filter snd (zip xs keep))"

definition mask_rows :: "bool list \<Rightarrow> frame \<Rightarrow> frame" where
  "mask_rows keep df =
     \<lparr>index = select_rows keep (index df),
      cols = map (\<lambda>(n, s). (n, select_rows keep s)) (cols df)\<rparr>"

section \<open>preprocessing.py: remove_outliers\<close>

text \<open>
  \<open>numpy.mean\<close>, \<open>numpy.std\<close> (population, ddof = 0) and \<open>scipy.stats.zscore\<close>. A NaN
  anywhere in the column makes the mean, and with it every z-score, NaN. A column of
  standard deviation 0 gives 0/0 = NaN in every row.

  The arithmetic here is exact. In double precision the computed mean of a column of
  equal cells can differ from the cell in the last place, and the computed standard
  deviation is then a tiny positive number instead of 0. So the test \<open>std xs = 0\<close> says
  nothing about which columns the program sees as constant, and no result below is
  about that case.
\<close>

definition mean :: "real list \<Rightarrow> real" where
  "mean xs = sum_list xs / real (length xs)"

definition pvar :: "real list \<Rightarrow> real" where
  "pvar xs = mean (map (\<lambda>x. (x - mean xs)\<^sup>2) xs)"

definition std :: "real list \<Rightarrow> real" where
  "std xs = sqrt (pvar xs)"

definition zval :: "real list \<Rightarrow> real \<Rightarrow> real option" where
  "zval xs x = (if std xs = 0 then None else Some ((x - mean xs) / std xs))"

definition zscore :: "series \<Rightarrow> series" where
  "zscore s = (case those s of
                 None \<Rightarrow> map (\<lambda>_. None) s
               | Some xs \<Rightarrow> map (zval xs) xs)"

definition np_abs :: "real option \<Rightarrow> real option" where
  "np_abs z = map_option abs z"

text \<open>\<open>z < threshold\<close>: a comparison with NaN is False.\<close>

definition np_less :: "real option \<Rightarrow> real \<Rightarrow> bool" where
  "np_less z threshold = (case z of None \<Rightarrow> False | Some v \<Rightarrow> v < threshold)"

text \<open>The loop \<open>for col in columns\<close>: each pass rebinds \<open>df\<close> to the rows it keeps.\<close>

fun outlier_loop :: "real \<Rightarrow> string list \<Rightarrow> frame \<Rightarrow> error + frame" where
  "outlier_loop threshold [] df = Inr df"
| "outlier_loop threshold (col # columns) df =
     (case getitem df col of
        Inl e \<Rightarrow> Inl e
      | Inr s \<Rightarrow>
          (let z_scores = map np_abs (zscore s)
           in outlier_loop threshold columns
                (mask_rows (map (\<lambda>z. np_less z threshold) z_scores) df)))"

text \<open>
  \<open>columns=None\<close> selects every numeric column, in column order. The summary line divides
  the number of removed rows by \<open>original_len\<close>, which raises on an empty table.
\<close>

definition resolve_columns :: "frame \<Rightarrow> string list option \<Rightarrow> string list" where
  "resolve_columns df columns = (case columns of None \<Rightarrow> map fst (cols df) | Some cs \<Rightarrow> cs)"

definition remove_outliers :: "real \<Rightarrow> frame \<Rightarrow> string list option \<Rightarrow> error + frame" where
  "remove_outliers threshold df columns =
     (let columns' = resolve_columns df columns;
          original_len = length (index df)
      in case outlier_loop threshold columns' df of
           Inl e \<Rightarrow> Inl e
         | Inr df' \<Rightarrow> if original_len = 0 then Inl ZeroDivisionError else Inr df')"

text \<open>The boolean mask of one pass, \<open>np.abs(stats.zscore(df[col])) < threshold\<close>.\<close>

definition keep_mask :: "real \<Rightarrow> series \<Rightarrow> bool list" where
  "keep_mask threshold s = map (\<lambda>z. np_less z threshold) (map np_abs (zscore s))"

text \<open>A retained cell passes the test of a population: its |z-score| there is below the threshold.\<close>

definition zscore_below :: "real \<Rightarrow> series \<Rightarrow> real option \<Rightarrow> bool" where
  "zscore_below threshold pop v =
     (case (those pop, v) of
        (Some xs, Some x) \<Rightarrow> np_less (np_abs (zval xs x)) threshold
      | _ \<Rightarrow> False)"

section \<open>preprocessing.py: handle_missing_values\<close>

text \<open>
  \<open>df.fillna(method=fill_method, limit=6)\<close>. pandas accepts four names for the two
  directions and raises ValueError on any other.
\<close>

datatype fill_direction = Pad | Backfill

definition clean_fill_method :: "string \<Rightarrow> error + fill_direction" where
  "clean_fill_method method =
     (if method = ''ffill'' \<or> method = ''pad'' then Inr Pad
      else if method = ''bfill'' \<or> method = ''backfill'' then Inr Backfill
      else Inl (ValueError method))"

text \<open>
  The forward pass of pandas over one column: \<open>val\<close> is the last valid cell seen (NaN
  before the first one), \<open>fill_count\<close> the number of cells filled since. A missing cell
  is filled while \<open>fill_count\<close> is below the limit. The backward fill is the same pass over
  the reversed column.
\<close>

fun pad_inplace :: "nat \<Rightarrow> real option \<Rightarrow> nat \<Rightarrow> series \<Rightarrow> series" where
  "pad_inplace limit val fill_count [] = []"
| "pad_inplace limit val fill_count (Some v # xs) = Some v # pad_inplace limit (Some v) 0 xs"
| "pad_inplace limit val fill_count (None # xs) =
     (if fill_count \<ge> limit then None # pad_inplace limit val fill_count xs
      else val # pad_inplace limit val (fill_count + 1) xs)"

definition fill_series :: "fill_direction \<Rightarrow> nat \<Rightarrow> series \<Rightarrow> series" where
  "fill_series d limit s =
     (case d of
        Pad \<Rightarrow> pad_inplace limit None 0 s
      | Backfill \<Rightarrow> rev (pad_inplace limit None 0 (rev s)))"

definition map_columns :: "(series \<Rightarrow> series) \<Rightarrow> frame \<Rightarrow> frame" where
  "map_columns f df = df\<lparr>cols := map (\<lambda>(n, s). (n, f s)) (cols df)\<rparr>"

definition fillna :: "string \<Rightarrow> nat \<Rightarrow> frame \<Rightarrow> error + frame" where
  "fillna method limit df =
     (case clean_fill_method method of
        Inl e \<Rightarrow> Inl e
      | Inr d \<Rightarrow> Inr (map_columns (fill_series d limit) df))"

text \<open>
  \<open>df.interpolate(method='linear', limit_direction='both')\<close>. The method \<open>linear\<close> treats
  the rows as equally spaced. A missing cell between two valid cells lies on the line
  through them; one before the first valid cell takes that cell's value and one after
  the last valid cell takes that one's (\<open>numpy.interp\<close> holds the end values); a column
  with no valid cell is left as it is.

  \<open>first_valid xs\<close> is the first valid cell of \<open>xs\<close> with its position. In \<open>interp_from\<close>,
  \<open>prev\<close> is the last valid cell passed with its distance back from the current cell.
\<close>

fun first_valid :: "series \<Rightarrow> (nat \<times> real) option" where
  "first_valid [] = None"
| "first_valid (Some v # xs) = Some (0, v)"
| "first_valid (None # xs) = map_option (\<lambda>(e, v). (Suc e, v)) (first_valid xs)"

fun interp_cell :: "(nat \<times> real) option \<Rightarrow> (nat \<times> real) option \<Rightarrow> real option" where
  "interp_cell None None = None"
| "interp_cell None (Some (e, y1)) = Some y1"
| "interp_cell (Some (d, y0)) None = Some y0"
| "interp_cell (Some (d, y0)) (Some (e, y1)) =
     Some ((y1 - y0) / real (d + Suc e) * real d + y0)"

fun interp_from :: "(nat \<times> real) option \<Rightarrow> series \<Rightarrow> series" where
  "interp_from prev [] = []"
| "interp_from prev (Some v # xs) = Some v # interp_from (Some (1, v)) xs"
| "interp_from prev (None # xs) =
     interp_cell prev (first_valid xs)
       # interp_from (map_option (\<lambda>(d, y0). (Suc d, y0)) prev) xs"

definition interpolate_linear :: "series \<Rightarrow> series" where
  "interpolate_linear s = interp_from None s"

definition interpolate :: "frame \<Rightarrow> frame" where
  "interpolate df = map_columns interpolate_linear df"

text \<open>\<open>df.dropna()\<close> keeps the rows in which every column has a value.\<close>

definition notna :: "real option \<Rightarrow> bool" where
  "notna v = (case v of None \<Rightarrow> False | Some x \<Rightarrow> True)"

definition notna_all :: "frame \<Rightarrow> bool list" where
  "notna_all df =
     foldr (\<lambda>(n, s) keep. map2 (\<and>) (map notna s) keep) (cols df)
       (replicate (length (index df)) True)"

definition dropna :: "frame \<Rightarrow> frame" where
  "dropna df = mask_rows (notna_all df) df"

text \<open>\<open>df.isnull().sum().sum()\<close>, the number of missing cells the function prints.\<close>

definition isnull_sum :: "frame \<Rightarrow> nat" where
  "isnull_sum df = sum_list (map (\<lambda>(n, s). length (filter (\<lambda>v. v = None) s)) (cols df))"

definition handle_missing_values :: "string \<Rightarrow> frame \<Rightarrow> error + frame" where
  "handle_missing_values fill_method df =
     (case fillna fill_method 6 df of
        Inl e \<Rightarrow> Inl e
      | Inr df1 \<Rightarrow>
          (let df2 = interpolate df1;
               df3 = dropna df2
           in Inr df3))"

text \<open>A cell that had a value still has that value.\<close>

definition kept :: "real option \<Rightarrow> real option \<Rightarrow> bool" where
  "kept a b = (a \<noteq> None \<longrightarrow> b = a)"

text \<open>The last valid cell, seen from \<open>n\<close> cells further on.\<close>

fun shift_prev :: "nat \<Rightarrow> (nat \<times> real) option \<Rightarrow> (nat \<times> real) option" where
  "shift_prev n None = None"
| "shift_prev n (Some (d, y0)) = Some (d + n, y0)"

section \<open>preprocessing.py: aggregate_data\<close>

text \<open>
  \<open>df.resample(aggregation_level).agg({...})\<close>. The granularity is a fixed bucket
  width in seconds (3600 for hourly). pandas anchors the buckets at midnight of the first
  row's day, closes and labels them on the left, and returns one row for every bucket
  from the first row's to the last row's, empty ones included. The mean of a bucket skips
  NaN and is NaN when nothing is left; the sum skips NaN and is 0 when nothing is left.
\<close>

datatype agg_func = Mean | Sum

definition agg_spec :: "(string \<times> agg_func) list" where
  "agg_spec =
     [(''Global_active_power'', Mean),
      (''Global_reactive_power'', Mean),
      (''Voltage'', Mean),
      (''Global_intensity'', Mean),
      (''Sub_metering_1'', Sum),
      (''Sub_metering_2'', Sum),
      (''Sub_metering_3'', Sum)]"

definition start_day :: "int \<Rightarrow> int" where
  "start_day t = (t div 86400) * 86400"

definition bucket_of :: "int \<Rightarrow> int \<Rightarrow> int \<Rightarrow> int" where
  "bucket_of origin width t = (t - origin) div width"

definition bucket_cells :: "int \<Rightarrow> int \<Rightarrow> int \<Rightarrow> int list \<Rightarrow> series \<Rightarrow> series" where
  "bucket_cells origin width k idx s =
     map snd (filter (\<lambda>(t, v). bucket_of origin width t = k) (zip idx s))"

definition valid_cells :: "series \<Rightarrow> real list" where
  "valid_cells cells = List.map_filter (\<lambda>v. v) cells"

fun agg_cells :: "agg_func \<Rightarrow> series \<Rightarrow> real option" where
  "agg_cells Mean cells =
     (let xs = valid_cells cells in if xs = [] then None else Some (mean xs))"
| "agg_cells Sum cells = Some (sum_list (valid_cells cells))"

fun agg_columns ::
  "int \<Rightarrow> int \<Rightarrow> int list \<Rightarrow> frame \<Rightarrow> (string \<times> agg_func) list \<Rightarrow> error + (string \<times> series) list"
where
  "agg_columns origin width ks df [] = Inr []"
| "agg_columns origin width ks df ((col, f) # spec) =
     (case getitem df col of
        Inl e \<Rightarrow> Inl e
      | Inr s \<Rightarrow>
          (case agg_columns origin width ks df spec of
             Inl e \<Rightarrow> Inl e
           | Inr rest \<Rightarrow>
               Inr ((col, map (\<lambda>k. agg_cells f (bucket_cells origin width k (index df) s)) ks)
                    # rest)))"

definition bucket_range :: "int \<Rightarrow> int list \<Rightarrow> int \<times> int list" where
  "bucket_range width idx =
     (case idx of
        [] \<Rightarrow> (0, [])
      | t # ts \<Rightarrow>
          (let first = fold min ts t;
               last = fold max ts t;
               origin = start_day first
           in (origin, [bucket_of origin width first..bucket_of origin width last])))"

definition aggregate_data :: "int \<Rightarrow> frame \<Rightarrow> error + frame" where
  "aggregate_data width df =
     (let (origin, ks) = bucket_range width (index df)
      in case agg_columns origin width ks df agg_spec of
           Inl e \<Rightarrow> Inl e
         | Inr columns \<Rightarrow>
             Inr \<lparr>index = map (\<lambda>k. origin + k * width) ks, cols = columns\<rparr>)"

text \<open>The cells of a column whose timestamps lie in the period that starts at \<open>b\<close>.\<close>

definition period_cells :: "int \<Rightarrow> int \<Rightarrow> int list \<Rightarrow> series \<Rightarrow> series" where
  "period_cells b width idx s =
     map snd (filter (\<lambda>(t, v). b \<le> t \<and> t < b + width) (zip idx s))"

section \<open>data_loader.py: load_processed_data\<close>

text \<open>
  The file system maps a path to what is there: a regular file with its text, or a
  directory. \<open>os.path.exists\<close> asks whether anything is there. \<open>os.path.join\<close> (POSIX)
  restarts at an absolute second component and otherwise puts one separator between
  the two.
\<close>

datatype node = File string | Directory

type_synonym filesystem = "string \<rightharpoonup> node"

definition os_path_exists :: "filesystem \<Rightarrow> string \<Rightarrow> bool" where
  "os_path_exists fs path = (fs path \<noteq> None)"

definition os_path_join :: "string \<Rightarrow> string \<Rightarrow> string" where
  "os_path_join a b =
     (if b \<noteq> [] \<and> hd b = CHR ''/'' then b
      else if a = [] \<or> last a = CHR ''/'' then a @ b
      else a @ ''/'' @ b)"

text \<open>
  \<open>pd.read_csv(path, index_col=0, parse_dates=True)\<close> is pandas' reader: here a
  parameter \<open>read_csv\<close> from the file's text and the two arguments to a table or the
  message of a parser error. Reading a directory raises IsADirectoryError.
\<close>

type_synonym csv_reader = "string \<Rightarrow> nat option \<Rightarrow> bool \<Rightarrow> string + frame"

definition load_processed_data ::
  "csv_reader \<Rightarrow> string \<Rightarrow> filesystem \<Rightarrow> string \<Rightarrow> error + frame" where
  "load_processed_data read_csv config_processed_path fs filename =
     (let processed_path = os_path_join config_processed_path filename
      in if \<not> os_path_exists fs processed_path
         then Inl (FileNotFoundError (''Processed data not found at '' @ processed_path))
         else (case fs processed_path of
                 Some (File text) \<Rightarrow>
                   (case read_csv text (Some 0) True of
                      Inl msg \<Rightarrow> Inl (ParserError msg)
                    | Inr df \<Rightarrow> Inr df)
               | _ \<Rightarrow> Inl (IsADirectoryError processed_path)))"

section \<open>Example tables\<close>

definition shift_table :: frame where
  "shift_table = \<lparr>index = [0, 3600, 7200, 10800],
                  cols = [(''A'', [Some 10, Some 0, Some 0, Some 0]),
                          (''B'', [Some 0, Some 0, Some 0, Some 1])]\<rparr>"

definition overlap_table :: frame where
  "overlap_table = \<lparr>index = [0, 3600, 7200, 10800, 14400],
                    cols = [(''A'', [Some 0, Some 1, Some 0, Some 1, Some 10]),
                            (''B'', [Some 0, Some 0, Some 0, Some 5, Some 10])]\<rparr>"

text \<open>
  Two one-minute rows from 2007-01-01 00:00:00; the second has no reading for the two
  power columns.
\<close>

definition scenario_rows :: frame where
  "scenario_rows =
     \<lparr>index = [1167609600, 1167609660],
      cols = [(''Global_active_power'', [Some 3.5, None]),
              (''Global_reactive_power'', [Some 0.4, None]),
              (''Voltage'', [Some 230.0, Some 230.1]),
              (''Global_intensity'', [Some 15.2, Some 15.0]),
              (''Sub_metering_1'', [Some 0, Some 0]),
              (''Sub_metering_2'', [Some 1, Some 2]),
              (''Sub_metering_3'', [Some 17, Some 16])]\<rparr>"

definition scenario_filled :: frame where
  "scenario_filled =
     \<lparr>index = [1167609600, 1167609660],
      cols = [(''Global_active_power'', [Some 3.5, Some 3.5]),
              (''Global_reactive_power'', [Some 0.4, Some 0.4]),
              (''Voltage'', [Some 230.0, Some 230.1]),
              (''Global_intensity'', [Some 15.2, Some 15.0]),
              (''Sub_metering_1'', [Some 0, Some 0]),
              (''Sub_metering_2'', [Some 1, Some 2]),
              (''Sub_metering_3'', [Some 17, Some 16])]\<rparr>"

text \<open>
  Ten one-minute rows: the voltage is missing for eight rows in a row, the intensity for
  the first two. And two rows whose intensity column has no value at all.
\<close>

definition long_gap_rows :: frame where
  "long_gap_rows =
     \<lparr>index = [1167609600, 1167609660, 1167609720, 1167609780, 1167609840,
               1167609900, 1167609960, 1167610020, 1167610080, 1167610140],
      cols = [(''Voltage'', [Some 230, None, None, None, None, None, None, None, None, Some 239]),
              (''Global_intensity'',
                 [None, None, Some 4, Some 4, Some 5, Some 5, Some 4, Some 4, Some 5, Some 5])]\<rparr>"

definition long_gap_filled :: frame where
  "long_gap_filled =
     \<lparr>index = [1167609600, 1167609660, 1167609720, 1167609780, 1167609840,
               1167609900, 1167609960, 1167610020, 1167610080, 1167610140],
      cols = [(''Voltage'',
                 [Some 230, Some 230, Some 230, Some 230, Some 230, Some 230, Some 230,
                  Some 233, Some 236, Some 239]),
              (''Global_intensity'',
                 [Some 4, Some 4, Some 4, Some 4, Some 5, Some 5, Some 4, Some 4, Some 5, Some 5])]\<rparr>"

definition dead_rows :: frame where
  "dead_rows =
     \<lparr>index = [1167609600, 1167609660],
      cols = [(''Voltage'', [Some 230, Some 231]), (''Global_intensity'', [None, None])]\<rparr>"

definition dead_dropped :: frame where
  "dead_dropped = \<lparr>index = [], cols = [(''Voltage'', []), (''Global_intensity'', [])]\<rparr>"

text \<open>One hour of one-minute rows: 230 V throughout and 1 Wh per minute on each sub-meter.\<close>

definition hour_rows :: frame where
  "hour_rows =
     \<lparr>index = map (\<lambda>i. 1167609600 + 60 * int i) [0..<60],
      cols = [(''Global_active_power'', replicate 60 (Some 3.5)),
              (''Global_reactive_power'', replicate 60 (Some 0.4)),
              (''Voltage'', replicate 60 (Some 230.0)),
              (''Global_intensity'', replicate 60 (Some 15.2)),
              (''Sub_metering_1'', replicate 60 (Some 1.0)),
              (''Sub_metering_2'', replicate 60 (Some 1.0)),
              (''Sub_metering_3'', replicate 60 (Some 1.0))]\<rparr>"

definition hour_aggregated :: frame where
  "hour_aggregated =
     \<lparr>index = [1167609600],
      cols = [(''Global_active_power'', [Some 3.5]),
              (''Global_reactive_power'', [Some 0.4]),
              (''Voltage'', [Some 230.0]),
              (''Global_intensity'', [Some 15.2]),
              (''Sub_metering_1'', [Some 60.0]),
              (''Sub_metering_2'', [Some 60.0]),
              (''Sub_metering_3'', [Some 60.0])]\<rparr>"

text \<open>Three unordered rows, two in the first hour of the day and one in the third.\<close>

definition gap_rows :: frame where
  "gap_rows =
     \<lparr>index = [1167616900, 1167609700, 1167609800],
      cols = [(''Global_active_power'', [Some 1, Some 2, None]),
              (''Global_reactive_power'', [Some 1, Some 2, None]),
              (''Voltage'', [Some 231, Some 229, Some 230]),
              (''Global_intensity'', [Some 1, Some 2, None]),
              (''Sub_metering_1'', [Some 1, Some 2, None]),
              (''Sub_metering_2'', [Some 1, Some 2, Some 5]),
              (''Sub_metering_3'', [Some 1, Some 2, None])]\<rparr>"

definition gap_aggregated :: frame where
  "gap_aggregated =
     \<lparr>index = [1167609600, 1167613200, 1167616800],
      cols = [(''Global_active_power'', [Some 2, None, Some 1]),
              (''Global_reactive_power'', [Some 2, None, Some 1]),
              (''Voltage'', [Some 229.5, None, Some 231]),
              (''Global_intensity'', [Some 2, None, Some 1]),
              (''Sub_metering_1'', [Some 2, Some 0, Some 1]),
              (''Sub_metering_2'', [Some 7, Some 0, Some 1]),
              (''Sub_metering_3'', [Some 2, Some 0, Some 1])]\<rparr>"

text \<open>A processed directory holding one file, and a reader that knows that file's text.\<close>

definition disk :: filesystem where
  "disk = [''data/processed'' \<mapsto> Directory,
           ''data/processed/hourly_consumption.csv'' \<mapsto> File ''hourly'']"

definition reader :: csv_reader where
  "reader text index_col parse_dates =
     (if text = ''hourly'' \<and> index_col = Some 0 \<and> parse_dates
      then Inr hour_aggregated else Inl ''No columns to parse from file'')"

section \<open>Row selection by a boolean mask\<close>

lemma select_rows_Nil [simp]: "select_rows [] xs = []" "select_rows ks [] = []"
  by (simp_all add: select_rows_def)

lemma select_rows_Cons [simp]:
  "select_rows (k # ks) (x # xs) = (if k then x # select_rows ks xs else select_rows ks xs)"
  by (simp add: select_rows_def)

lemma select_rows_map: "select_rows ks (map f xs) = map f (select_rows ks xs)"
  by (induction ks xs rule: list_induct2') simp_all

lemma set_select_rows: "set (select_rows ks xs) \<subseteq> set xs"
  by (induction ks xs rule: list_induct2') auto

lemma select_rows_self: "select_rows (map p xs) xs = filter p xs"
  by (induction xs) simp_all

lemma select_rows_all_False: "\<forall>k\<in>set ks. \<not> k \<Longrightarrow> select_rows ks xs = []"
  by (induction ks xs rule: list_induct2') auto

lemma subseq_select_rows: "subseq (select_rows ks xs) xs"
  by (induction ks xs rule: list_induct2') auto

lemma index_mask_rows [simp]: "index (mask_rows ks df) = select_rows ks (index df)"
  by (simp add: mask_rows_def)

lemma names_mask_rows [simp]: "map fst (cols (mask_rows ks df)) = map fst (cols df)"
  by (simp add: mask_rows_def case_prod_unfold comp_def)

lemma map_of_mask_rows:
  "map_of (cols (mask_rows ks df)) c = map_option (select_rows ks) (map_of (cols df) c)"
  by (simp add: mask_rows_def map_of_map)

lemma getitem_mask_rows:
  "getitem (mask_rows ks df) c =
     (case getitem df c of Inl e \<Rightarrow> Inl e | Inr s \<Rightarrow> Inr (select_rows ks s))"
  by (simp add: getitem_def map_of_mask_rows split: option.splits)

lemma getitem_Inr_iff: "(\<exists>s. getitem df c = Inr s) = (c \<in> fst ` set (cols df))"
  by (auto simp: getitem_def map_of_eq_None_iff split: option.splits)
     (metis map_of_eq_None_iff not_Some_eq)

section \<open>Outlier removal\<close>

subsection \<open>z-scores\<close>

lemma mean_nonneg: "(\<And>x. x \<in> set xs \<Longrightarrow> 0 \<le> x) \<Longrightarrow> 0 \<le> mean xs"
  by (simp add: mean_def sum_list_nonneg)

lemma pvar_nonneg: "0 \<le> pvar xs"
  unfolding pvar_def by (rule mean_nonneg) auto

lemma std_eq_0_iff: "(std xs = 0) = (pvar xs = 0)"
  by (simp add: std_def)

lemma abs_div_sqrt_less:
  assumes v: "0 < v"
  shows "(\<bar>d\<bar> / sqrt v < T) = (0 < T \<and> d\<^sup>2 < T\<^sup>2 * v)"
proof (cases "0 < T")
  case False
  have "0 \<le> \<bar>d\<bar> / sqrt v" using v by simp
  with False show ?thesis by linarith
next
  case True
  have "(\<bar>d\<bar> / sqrt v < T) = (\<bar>d\<bar> < T * sqrt v)"
    using v by (simp add: pos_divide_less_eq)
  also have "\<dots> = (\<bar>d\<bar>\<^sup>2 < (T * sqrt v)\<^sup>2)"
  proof
    assume "\<bar>d\<bar> < T * sqrt v"
    then show "\<bar>d\<bar>\<^sup>2 < (T * sqrt v)\<^sup>2"
      by (intro power_strict_mono) simp_all
  next
    assume "\<bar>d\<bar>\<^sup>2 < (T * sqrt v)\<^sup>2"
    moreover have "0 \<le> T * sqrt v" using v True by simp
    ultimately show "\<bar>d\<bar> < T * sqrt v"
      by (rule power2_less_imp_less)
  qed
  also have "\<dots> = (d\<^sup>2 < T\<^sup>2 * v)"
    using v by (simp add: power_mult_distrib)
  finally show ?thesis using True by simp
qed

lemma np_less_zval:
  "np_less (np_abs (zval xs x)) T = (pvar xs \<noteq> 0 \<and> 0 < T \<and> (x - mean xs)\<^sup>2 < T\<^sup>2 * pvar xs)"
proof (cases "pvar xs = 0")
  case True
  then show ?thesis by (simp add: zval_def std_def np_less_def np_abs_def)
next
  case False
  then have v: "0 < pvar xs" using pvar_nonneg[of xs] by linarith
  have "np_less (np_abs (zval xs x)) T = (\<bar>x - mean xs\<bar> / sqrt (pvar xs) < T)"
    using v by (simp add: zval_def std_def np_less_def np_abs_def)
  with abs_div_sqrt_less[OF v] False show ?thesis by simp
qed

lemma those_eq_Some: "those s = Some xs \<Longrightarrow> s = map Some xs"
  by (induction s arbitrary: xs) (auto split: option.splits)

lemma those_map_Some [simp]: "those (map Some xs) = Some xs"
  by (induction xs) simp_all

lemma those_eq_None: "those s = None \<Longrightarrow> None \<in> set s"
  by (induction s) (auto split: option.splits)

lemma keep_mask_None: "those s = None \<Longrightarrow> keep_mask T s = map (\<lambda>_. False) s"
  by (simp add: keep_mask_def zscore_def np_less_def np_abs_def)

lemma keep_mask_Some:
  "keep_mask T (map Some xs) = map (\<lambda>x. np_less (np_abs (zval xs x)) T) xs"
  by (simp add: keep_mask_def zscore_def)

lemma keep_mask_eval:
  "keep_mask T (map Some xs) =
     map (\<lambda>x. pvar xs \<noteq> 0 \<and> 0 < T \<and> (x - mean xs)\<^sup>2 < T\<^sup>2 * pvar xs) xs"
  by (simp add: keep_mask_Some np_less_zval)

lemma outlier_loop_step [simp]:
  "outlier_loop T (c # cs) df =
     (case getitem df c of
        Inl e \<Rightarrow> Inl e
      | Inr s \<Rightarrow> outlier_loop T cs (mask_rows (keep_mask T s) df))"
  by (simp add: keep_mask_def split: sum.splits)

declare outlier_loop.simps(2) [simp del]

lemma kept_cells_pass: "list_all (zscore_below T s) (select_rows (keep_mask T s) s)"
proof (cases "those s")
  case None
  then show ?thesis
    by (simp add: keep_mask_None select_rows_all_False)
next
  case (Some xs)
  then have s: "s = map Some xs" by (rule those_eq_Some)
  have "select_rows (keep_mask T s) s
          = map Some (filter (\<lambda>x. np_less (np_abs (zval xs x)) T) xs)"
    by (simp add: s keep_mask_Some select_rows_map select_rows_self)
  then show ?thesis
    by (simp add: s list_all_iff zscore_below_def)
qed

lemma outlier_loop_append:
  "outlier_loop T (cs1 @ cs2) df =
     (case outlier_loop T cs1 df of Inl e \<Rightarrow> Inl e | Inr mid \<Rightarrow> outlier_loop T cs2 mid)"
  by (induction cs1 arbitrary: df) (simp_all split: sum.splits)

lemma outlier_loop_column:
  "outlier_loop T cs df = Inr out \<Longrightarrow> getitem df c = Inr s \<Longrightarrow>
     \<exists>s'. getitem out c = Inr s' \<and> set s' \<subseteq> set s"
proof (induction cs arbitrary: df s)
  case Nil
  then show ?case by auto
next
  case (Cons a cs)
  from Cons.prems(1) obtain sa where sa: "getitem df a = Inr sa"
    and loop: "outlier_loop T cs (mask_rows (keep_mask T sa) df) = Inr out"
    by (auto split: sum.splits)
  have "getitem (mask_rows (keep_mask T sa) df) c = Inr (select_rows (keep_mask T sa) s)"
    by (simp add: getitem_mask_rows Cons.prems(2))
  from Cons.IH[OF loop this] obtain s' where
    "getitem out c = Inr s'" "set s' \<subseteq> set (select_rows (keep_mask T sa) s)"
    by blast
  with set_select_rows[of "keep_mask T sa" s] show ?case by blast
qed

lemma remove_outliers_Inr:
  "remove_outliers T df columns = Inr out \<Longrightarrow>
     outlier_loop T (resolve_columns df columns) df = Inr out \<and> index df \<noteq> []"
  by (auto simp: remove_outliers_def Let_def split: sum.splits if_splits)

subsection \<open>Evaluating the filter on the example tables\<close>

lemma keep_mask_those:
  "keep_mask T s =
     (case those s of
        None \<Rightarrow> map (\<lambda>_. False) s
      | Some xs \<Rightarrow> map (\<lambda>x. pvar xs \<noteq> 0 \<and> 0 < T \<and> (x - mean xs)\<^sup>2 < T\<^sup>2 * pvar xs) xs)"
  by (auto simp: keep_mask_None keep_mask_eval dest: those_eq_Some split: option.splits)

lemma zscore_below_eval:
  "zscore_below T (map Some xs) (Some x) =
     (pvar xs \<noteq> 0 \<and> 0 < T \<and> (x - mean xs)\<^sup>2 < T\<^sup>2 * pvar xs)"
  by (simp add: zscore_below_def np_less_zval)

lemmas eval_outliers =
  remove_outliers_def resolve_columns_def getitem_def mask_rows_def keep_mask_those
  mean_def pvar_def power2_eq_square

lemma shift_AB:
  "remove_outliers (3/2) shift_table (Some [''A'', ''B'']) =
     Inr \<lparr>index = [3600, 7200, 10800],
          cols = [(''A'', [Some 0, Some 0, Some 0]), (''B'', [Some 0, Some 0, Some 1])]\<rparr>"
  by (simp add: shift_table_def eval_outliers)

lemma shift_A:
  "outlier_loop (3/2) [''A''] shift_table =
     Inr \<lparr>index = [3600, 7200, 10800],
          cols = [(''A'', [Some 0, Some 0, Some 0]), (''B'', [Some 0, Some 0, Some 1])]\<rparr>"
  by (simp add: shift_table_def eval_outliers)

lemma shift_fails: "\<not> zscore_below (3/2) (map Some [0, 0, 0, 1]) (Some 1)"
  by (simp only: zscore_below_eval) (simp add: mean_def pvar_def power2_eq_square)

lemma overlap_AB:
  "remove_outliers (3/2) overlap_table (Some [''A'', ''B'']) =
     Inr \<lparr>index = [0, 3600, 7200],
          cols = [(''A'', [Some 0, Some 1, Some 0]), (''B'', [Some 0, Some 0, Some 0])]\<rparr>"
  by (simp add: overlap_table_def eval_outliers)

lemma overlap_BA:
  "remove_outliers (3/2) overlap_table (Some [''B'', ''A'']) =
     Inr \<lparr>index = [0, 3600, 7200, 10800],
          cols = [(''A'', [Some 0, Some 1, Some 0, Some 1]), (''B'', [Some 0, Some 0, Some 0, Some 5])]\<rparr>"
  by (simp add: overlap_table_def eval_outliers)

subsection \<open>Claims about remove_outliers\<close>

text \<open>
  Claim C1, as the code has it. Every cell that \<open>remove_outliers\<close> returns in a checked
  column has |z-score| below the threshold in the population that column had when its turn
  came: the input table for the first checked column, and for each later column the rows
  that survived the filters of the columns before it.
\<close>

theorem remove_outliers_zscore_at_check:
  assumes run: "remove_outliers T df columns = Inr out"
    and cs: "resolve_columns df columns = cs1 @ c # cs2"
  shows "\<exists>mid pop s'. outlier_loop T cs1 df = Inr mid \<and> getitem mid c = Inr pop
           \<and> getitem out c = Inr s' \<and> list_all (zscore_below T pop) s'"
proof -
  from remove_outliers_Inr[OF run] cs have "outlier_loop T (cs1 @ c # cs2) df = Inr out"
    by simp
  then obtain mid where mid: "outlier_loop T cs1 df = Inr mid"
    and rest: "outlier_loop T (c # cs2) mid = Inr out"
    by (auto simp: outlier_loop_append split: sum.splits)
  from rest obtain pop where pop: "getitem mid c = Inr pop"
    and tl: "outlier_loop T cs2 (mask_rows (keep_mask T pop) mid) = Inr out"
    by (auto split: sum.splits)
  have "getitem (mask_rows (keep_mask T pop) mid) c = Inr (select_rows (keep_mask T pop) pop)"
    by (simp add: getitem_mask_rows pop)
  from outlier_loop_column[OF tl this] obtain s' where
    s': "getitem out c = Inr s'" "set s' \<subseteq> set (select_rows (keep_mask T pop) pop)"
    by blast
  from kept_cells_pass[of T pop] s'(2) have "list_all (zscore_below T pop) s'"
    by (auto simp: list_all_iff)
  with mid pop s'(1) show ?thesis by blast
qed

theorem remove_outliers_zscore_at_check_witness:
  "remove_outliers (3/2) shift_table (Some [''A'', ''B'']) =
     Inr \<lparr>index = [3600, 7200, 10800],
          cols = [(''A'', [Some 0, Some 0, Some 0]), (''B'', [Some 0, Some 0, Some 1])]\<rparr>
   \<and> list_all (zscore_below (3/2) [Some 0, Some 0, Some 1]) [Some 0, Some 0, Some 1]"
proof -
  let ?out = "\<lparr>index = [3600, 7200, 10800],
               cols = [(''A'', [Some 0, Some 0, Some 0]), (''B'', [Some 0, Some 0, Some 1])]\<rparr>"
  have "resolve_columns shift_table (Some [''A'', ''B'']) = [''A''] @ ''B'' # []"
    by (simp add: resolve_columns_def)
  from remove_outliers_zscore_at_check[OF shift_AB this]
  obtain mid pop s' where h: "outlier_loop (3/2) [''A''] shift_table = Inr mid"
    "getitem mid ''B'' = Inr pop" "getitem ?out ''B'' = Inr s'"
    "list_all (zscore_below (3/2) pop) s'"
    by blast
  from h(1) have "mid = ?out" unfolding shift_A by simp
  with h(2) have "pop = [Some 0, Some 0, Some 1]" by (auto simp: getitem_def)
  moreover from h(3) have "s' = [Some 0, Some 0, Some 1]" by (auto simp: getitem_def)
  ultimately show ?thesis using h(4) shift_AB by simp
qed

text \<open>
  Claim C1, as the spec states it, fails. With threshold 1.5 and columns A then B, the row
  with A = 10 goes first; the cell B = 1 is then kept against the three remaining rows,
  while its z-score over the four input rows is the square root of 3.
\<close>

theorem remove_outliers_input_population_counterexample:
  "remove_outliers (3/2) shift_table (Some [''A'', ''B'']) =
     Inr \<lparr>index = [3600, 7200, 10800],
          cols = [(''A'', [Some 0, Some 0, Some 0]), (''B'', [Some 0, Some 0, Some 1])]\<rparr>
   \<and> getitem shift_table ''B'' = Inr [Some 0, Some 0, Some 0, Some 1]
   \<and> \<not> zscore_below (3/2) [Some 0, Some 0, Some 0, Some 1] (Some 1)"
  using shift_fails by (simp add: shift_AB) (simp add: shift_table_def getitem_def)

text \<open>
  Claim C5. The filter is sequential: the rows that fail the first column's test are gone
  before the next column's z-scores are computed. On \<open>overlap_table\<close> with threshold 1.5
  the order A, B keeps three rows and the order B, A keeps four.
\<close>

theorem remove_outliers_order_dependent:
  "(remove_outliers T df (Some (c # cs)) = Inr out \<longrightarrow>
      (\<exists>s. getitem df c = Inr s \<and> outlier_loop T cs (mask_rows (keep_mask T s) df) = Inr out))
   \<and> remove_outliers (3/2) overlap_table (Some [''A'', ''B'']) =
       Inr \<lparr>index = [0, 3600, 7200],
            cols = [(''A'', [Some 0, Some 1, Some 0]), (''B'', [Some 0, Some 0, Some 0])]\<rparr>
   \<and> remove_outliers (3/2) overlap_table (Some [''B'', ''A'']) =
       Inr \<lparr>index = [0, 3600, 7200, 10800],
            cols = [(''A'', [Some 0, Some 1, Some 0, Some 1]),
                    (''B'', [Some 0, Some 0, Some 0, Some 5])]\<rparr>"
proof (intro conjI impI)
  assume "remove_outliers T df (Some (c # cs)) = Inr out"
  from remove_outliers_Inr[OF this]
  show "\<exists>s. getitem df c = Inr s \<and> outlier_loop T cs (mask_rows (keep_mask T s) df) = Inr out"
    by (auto simp: resolve_columns_def split: sum.splits)
qed (simp_all only: overlap_AB overlap_BA)

theorem remove_outliers_order_dependent_witness:
  "getitem overlap_table ''B'' = Inr [Some 0, Some 0, Some 0, Some 5, Some 10]
   \<and> outlier_loop (3/2) [''A'']
        (mask_rows (keep_mask (3/2) [Some 0, Some 0, Some 0, Some 5, Some 10]) overlap_table) =
       Inr \<lparr>index = [0, 3600, 7200, 10800],
            cols = [(''A'', [Some 0, Some 1, Some 0, Some 1]),
                    (''B'', [Some 0, Some 0, Some 0, Some 5])]\<rparr>"
proof -
  let ?out = "\<lparr>index = [0, 3600, 7200, 10800],
               cols = [(''A'', [Some 0, Some 1, Some 0, Some 1]),
                       (''B'', [Some 0, Some 0, Some 0, Some 5])]\<rparr>"
  from remove_outliers_order_dependent[of "3/2" overlap_table "''B''" "[''A'']" ?out]
  have "remove_outliers (3/2) overlap_table (Some [''B'', ''A'']) = Inr ?out \<longrightarrow>
          (\<exists>s. getitem overlap_table ''B'' = Inr s
             \<and> outlier_loop (3/2) [''A''] (mask_rows (keep_mask (3/2) s) overlap_table) = Inr ?out)"
    by (rule conjunct1)
  with overlap_BA obtain s where s: "getitem overlap_table ''B'' = Inr s"
    "outlier_loop (3/2) [''A''] (mask_rows (keep_mask (3/2) s) overlap_table) = Inr ?out"
    by blast
  from s(1) have "s = [Some 0, Some 0, Some 0, Some 5, Some 10]"
    by (auto simp: overlap_table_def getitem_def)
  with s show ?thesis by simp
qed

section \<open>Missing values\<close>

subsection \<open>Filling keeps what is there\<close>

lemma length_pad_inplace [simp]: "length (pad_inplace limit val k s) = length s"
  by (induction limit val k s rule: pad_inplace.induct) simp_all

lemma pad_inplace_keeps:
  "list_all2 kept s (pad_inplace limit val k s)"
  by (induction limit val k s rule: pad_inplace.induct) (simp_all add: kept_def)

lemma length_fill_series [simp]: "length (fill_series d limit s) = length s"
  by (cases d) (simp_all add: fill_series_def)

lemma fill_series_keeps:
  "list_all2 kept s (fill_series d limit s)"
proof (cases d)
  case Pad
  then show ?thesis by (simp add: fill_series_def pad_inplace_keeps)
next
  case Backfill
  have "list_all2 kept (rev (rev s)) (rev (pad_inplace limit None 0 (rev s)))"
    by (rule list_all2_rev1[THEN iffD2]) (simp add: pad_inplace_keeps)
  with Backfill show ?thesis by (simp add: fill_series_def)
qed

lemma length_interp_from [simp]: "length (interp_from prev s) = length s"
  by (induction prev s rule: interp_from.induct) simp_all

lemma interp_from_keeps:
  "list_all2 kept s (interp_from prev s)"
  by (induction prev s rule: interp_from.induct) (simp_all add: kept_def)

lemma interpolate_linear_keeps:
  "list_all2 kept s (interpolate_linear s)"
  by (simp add: interpolate_linear_def interp_from_keeps)

lemma keeps_trans:
  "list_all2 kept xs ys \<Longrightarrow>
   list_all2 kept ys zs \<Longrightarrow>
   list_all2 kept xs zs"
  by (erule (1) list_all2_trans[rotated]) (auto simp: kept_def)

lemma list_all2_select_rows:
  "list_all2 R xs ys \<Longrightarrow> list_all2 R (select_rows ks xs) (select_rows ks ys)"
proof (induction ks arbitrary: xs ys)
  case Nil
  then show ?case by simp
next
  case (Cons k ks)
  then show ?case by (cases xs; cases ys) auto
qed

subsection \<open>Frames\<close>

lemma index_map_columns [simp]: "index (map_columns f df) = index df"
  by (simp add: map_columns_def)

lemma names_map_columns [simp]: "map fst (cols (map_columns f df)) = map fst (cols df)"
  by (simp add: map_columns_def case_prod_unfold comp_def)

lemma getitem_map_columns:
  "getitem (map_columns f df) c = (case getitem df c of Inl e \<Rightarrow> Inl e | Inr s \<Rightarrow> Inr (f s))"
  by (simp add: getitem_def map_columns_def map_of_map split: option.splits)

subsection \<open>Dropping incomplete rows\<close>

lemma set_select_rows_and:
  "set (select_rows (map2 (\<and>) as bs) xs) \<subseteq> set (select_rows as xs) \<inter> set (select_rows bs xs)"
proof (induction as bs arbitrary: xs rule: list_induct2')
  case (4 a as b bs)
  show ?case
  proof (cases xs)
    case Nil
    then show ?thesis by simp
  next
    case (Cons y ys)
    with 4[of ys] show ?thesis by auto
  qed
qed simp_all

lemma notna_iff: "notna v = (v \<noteq> None)"
  by (simp add: notna_def split: option.splits)

lemma select_rows_notna: "None \<notin> set (select_rows (map notna s) s)"
  by (simp add: select_rows_self notna_def)

lemma notna_fold_complete:
  "(n, s) \<in> set cs \<Longrightarrow>
   None \<notin> set (select_rows (foldr (\<lambda>(n, s) keep. map2 (\<and>) (map notna s) keep) cs init) s)"
proof (induction cs)
  case Nil
  then show ?case by simp
next
  case (Cons a cs)
  obtain m t where a: "a = (m, t)" by (cases a)
  let ?rest = "foldr (\<lambda>(n, s) keep. map2 (\<and>) (map notna s) keep) cs init"
  have sub: "set (select_rows (map2 (\<and>) (map notna t) ?rest) s)
      \<subseteq> set (select_rows (map notna t) s) \<inter> set (select_rows ?rest s)"
    by (rule set_select_rows_and)
  show ?case
  proof (cases "(n, s) = a")
    case True
    with a have "t = s" by simp
    with sub select_rows_notna[of s] show ?thesis by (auto simp: a)
  next
    case False
    with Cons.prems have "(n, s) \<in> set cs" by simp
    from Cons.IH[OF this] sub show ?thesis by (auto simp: a)
  qed
qed

lemma dropna_complete: "(n, s) \<in> set (cols (dropna df)) \<Longrightarrow> None \<notin> set s"
proof -
  assume "(n, s) \<in> set (cols (dropna df))"
  then obtain t where t: "(n, t) \<in> set (cols df)" and s: "s = select_rows (notna_all df) t"
    by (auto simp: dropna_def mask_rows_def)
  from notna_fold_complete[OF t] show ?thesis
    by (simp add: s notna_all_def)
qed

lemma filter_None_empty: "(filter (\<lambda>v. v = None) s = []) = (None \<notin> set s)"
  by (induction s) auto

lemma isnull_sum_0_iff: "(isnull_sum df = 0) = (\<forall>(n, s)\<in>set (cols df). None \<notin> set s)"
  by (auto simp: isnull_sum_def case_prod_unfold filter_None_empty)

lemma handle_missing_values_Inr:
  "handle_missing_values m df = Inr out \<Longrightarrow>
     \<exists>d. clean_fill_method m = Inr d
        \<and> out = dropna (interpolate (map_columns (fill_series d 6) df))"
  by (auto simp: handle_missing_values_def fillna_def split: sum.splits)

lemma handle_missing_values_total:
  "clean_fill_method m = Inr d \<Longrightarrow>
     handle_missing_values m df = Inr (dropna (interpolate (map_columns (fill_series d 6) df)))"
  by (simp add: handle_missing_values_def fillna_def)

subsection \<open>The bounded fill, cell by cell\<close>

lemma pad_inplace_gap:
  "n < length xs \<Longrightarrow> \<forall>m\<le>n. xs ! m = None \<Longrightarrow>
     pad_inplace limit val k xs ! n = (if k + n < limit then val else None)"
proof (induction xs arbitrary: k n)
  case Nil
  then show ?case by simp
next
  case (Cons x xs)
  from Cons.prems(2) have x: "x = None" by (metis le0 nth_Cons_0)
  show ?case
  proof (cases n)
    case 0
    then show ?thesis by (simp add: x)
  next
    case (Suc n')
    with Cons.prems have n': "n' < length xs" and gap: "\<forall>m\<le>n'. xs ! m = None"
      by auto
    from Cons.IH[OF n' gap] show ?thesis by (simp add: x Suc)
  qed
qed

lemma pad_inplace_after_valid:
  "j < i \<Longrightarrow> i < length s \<Longrightarrow> s ! j = Some v \<Longrightarrow>
     pad_inplace limit val k s ! i = pad_inplace limit (Some v) 0 (drop (Suc j) s) ! (i - Suc j)"
proof (induction limit val k s arbitrary: i j rule: pad_inplace.induct)
  case (1 limit val fill_count)
  then show ?case by simp
next
  case (2 limit val fill_count w xs)
  show ?case
  proof (cases j)
    case 0
    with 2 show ?thesis by (cases i) simp_all
  next
    case (Suc j')
    with 2 show ?thesis by (cases i) simp_all
  qed
next
  case (3 limit val fill_count xs)
  then obtain j' where j: "j = Suc j'" by (cases j) simp_all
  with 3 show ?case by (cases i) simp_all
qed

lemma pad_forward:
  assumes "j < i" "i < length s" "s ! j = Some v" "\<forall>k. j < k \<and> k \<le> i \<longrightarrow> s ! k = None"
  shows "pad_inplace limit val k0 s ! i = (if i - j \<le> limit then Some v else None)"
proof -
  let ?xs = "drop (Suc j) s" and ?n = "i - Suc j"
  have n: "?n < length ?xs" using assms(1,2) by simp
  have gap: "\<forall>m\<le>?n. ?xs ! m = None"
    using assms(1,2,4) by simp
  have "pad_inplace limit val k0 s ! i = pad_inplace limit (Some v) 0 ?xs ! ?n"
    using assms(1-3) by (rule pad_inplace_after_valid)
  also have "\<dots> = (if 0 + ?n < limit then Some v else None)"
    using n gap by (rule pad_inplace_gap)
  also have "\<dots> = (if i - j \<le> limit then Some v else None)"
    using assms(1) by (auto simp: less_eq_Suc_le)
  finally show ?thesis .
qed

lemma pad_leading:
  "i < length s \<Longrightarrow> \<forall>k\<le>i. s ! k = None \<Longrightarrow> pad_inplace limit None k0 s ! i = None"
  by (simp add: pad_inplace_gap)

lemma fill_series_forward:
  assumes "j < i" "i < length s" "s ! j = Some v" "\<forall>k. j < k \<and> k \<le> i \<longrightarrow> s ! k = None"
  shows "fill_series Pad limit s ! i = (if i - j \<le> limit then Some v else None)"
  using pad_forward[OF assms] by (simp add: fill_series_def)

lemma fill_series_backward:
  assumes "i < k" "k < length s" "s ! k = Some v" "\<forall>m. i \<le> m \<and> m < k \<longrightarrow> s ! m = None"
  shows "fill_series Backfill limit s ! i = (if k - i \<le> limit then Some v else None)"
proof -
  let ?L = "length s"
  let ?i = "?L - Suc i" and ?k = "?L - Suc k"
  have lt: "?k < ?i" "?i < length (rev s)" using assms(1,2) by simp_all
  have v: "rev s ! ?k = Some v" using assms(2,3) by (simp add: rev_nth)
  have gap: "\<forall>m. ?k < m \<and> m \<le> ?i \<longrightarrow> rev s ! m = None"
  proof (intro allI impI)
    fix m assume m: "?k < m \<and> m \<le> ?i"
    with assms(1,2) have "m < ?L" by linarith
    then have "rev s ! m = s ! (?L - Suc m)" by (simp add: rev_nth)
    moreover have "i \<le> ?L - Suc m \<and> ?L - Suc m < k" using m assms(1,2) by auto
    ultimately show "rev s ! m = None" using assms(4) by simp
  qed
  have "fill_series Backfill limit s ! i = pad_inplace limit None 0 (rev s) ! ?i"
    using assms(1,2) by (simp add: fill_series_def rev_nth)
  also have "\<dots> = (if ?i - ?k \<le> limit then Some v else None)"
    using lt v gap by (rule pad_forward)
  also have "?i - ?k = k - i" using assms(1,2) by simp
  finally show ?thesis .
qed

subsection \<open>Linear interpolation, cell by cell\<close>

lemma first_valid_None: "(first_valid xs = None) = (\<forall>x\<in>set xs. x = None)"
  by (induction xs rule: first_valid.induct) auto

lemma first_valid_Some:
  "e < length xs \<Longrightarrow> xs ! e = Some y \<Longrightarrow> \<forall>m<e. xs ! m = None \<Longrightarrow> first_valid xs = Some (e, y)"
proof (induction xs arbitrary: e rule: first_valid.induct)
  case 1
  then show ?case by simp
next
  case (2 v xs)
  then show ?case by (cases e) auto
next
  case (3 xs)
  then obtain e' where e: "e = Suc e'" by (cases e) simp_all
  from "3.prems"(3) have "\<forall>m<e'. xs ! m = None"
  proof (intro allI impI)
    fix m assume "m < e'"
    then have "Suc m < e" by (simp add: e)
    with "3.prems"(3) have "(None # xs) ! Suc m = None" by blast
    then show "xs ! m = None" by simp
  qed
  with "3.prems"(1,2) have "first_valid xs = Some (e', y)"
    by (intro "3.IH") (simp_all add: e)
  then show ?case by (simp add: e)
qed

lemma interp_from_gap:
  "n < length xs \<Longrightarrow> \<forall>m\<le>n. xs ! m = None \<Longrightarrow>
     interp_from prev xs ! n = interp_cell (shift_prev n prev) (first_valid (drop (Suc n) xs))"
proof (induction xs arbitrary: prev n)
  case Nil
  then show ?case by simp
next
  case (Cons x xs)
  from Cons.prems(2) have x: "x = None" by (metis le0 nth_Cons_0)
  show ?case
  proof (cases n)
    case 0
    then show ?thesis by (cases prev) (auto simp: x)
  next
    case (Suc n')
    with Cons.prems have n': "n' < length xs" and gap: "\<forall>m\<le>n'. xs ! m = None"
      by auto
    have "shift_prev n' (map_option (\<lambda>(d, y0). (Suc d, y0)) prev) = shift_prev (Suc n') prev"
      by (cases prev) auto
    with Cons.IH[OF n' gap, of "map_option (\<lambda>(d, y0). (Suc d, y0)) prev"]
    show ?thesis by (simp add: x Suc)
  qed
qed

lemma interp_from_after_valid:
  "j < i \<Longrightarrow> i < length s \<Longrightarrow> s ! j = Some a \<Longrightarrow>
     interp_from prev s ! i = interp_from (Some (1, a)) (drop (Suc j) s) ! (i - Suc j)"
proof (induction prev s arbitrary: i j rule: interp_from.induct)
  case (1 prev)
  then show ?case by simp
next
  case (2 prev w xs)
  show ?case
  proof (cases j)
    case 0
    with 2 show ?thesis by (cases i) simp_all
  next
    case (Suc j')
    with 2 show ?thesis by (cases i) simp_all
  qed
next
  case (3 prev xs)
  then obtain j' where j: "j = Suc j'" by (cases j) simp_all
  with 3 show ?case by (cases i) simp_all
qed

lemma interpolate_interior:
  assumes "j < i" "i < k" "k < length s" "s ! j = Some a" "s ! k = Some b"
    and gap: "\<forall>m. j < m \<and> m < k \<longrightarrow> s ! m = None"
  shows "interpolate_linear s ! i = Some ((b - a) / real (k - j) * real (i - j) + a)"
proof -
  let ?xs = "drop (Suc j) s" and ?n = "i - Suc j"
  have n: "?n < length ?xs" using assms(1-3) by simp
  have g: "\<forall>m\<le>?n. ?xs ! m = None" using assms(1-3) gap by simp
  have fv: "first_valid (drop (Suc ?n) ?xs) = Some (k - Suc i, b)"
  proof (rule first_valid_Some)
    show "k - Suc i < length (drop (Suc ?n) ?xs)" using assms(1-3) by simp
    show "drop (Suc ?n) ?xs ! (k - Suc i) = Some b" using assms(1-3,5) by simp
    show "\<forall>m<k - Suc i. drop (Suc ?n) ?xs ! m = None" using assms(1-3) gap by simp
  qed
  have "interpolate_linear s ! i = interp_from (Some (1, a)) ?xs ! ?n"
    unfolding interpolate_linear_def using assms(1) _ assms(4)
    by (rule interp_from_after_valid) (use assms(2,3) in simp)
  also have "\<dots> = interp_cell (shift_prev ?n (Some (1, a))) (first_valid (drop (Suc ?n) ?xs))"
    using n g by (rule interp_from_gap)
  also have "\<dots> = Some ((b - a) / real (1 + ?n + Suc (k - Suc i)) * real (1 + ?n) + a)"
    unfolding fv by simp
  also have "1 + ?n + Suc (k - Suc i) = k - j" using assms(1,2) by simp
  also have "1 + ?n = i - j" using assms(1) by simp
  finally show ?thesis .
qed

lemma interpolate_leading:
  assumes "i < k" "k < length s" "s ! k = Some b" "\<forall>m<k. s ! m = None"
  shows "interpolate_linear s ! i = Some b"
proof -
  have fv: "first_valid (drop (Suc i) s) = Some (k - Suc i, b)"
  proof (rule first_valid_Some)
    show "k - Suc i < length (drop (Suc i) s)" using assms(1,2) by simp
    show "drop (Suc i) s ! (k - Suc i) = Some b" using assms(1-3) by simp
    show "\<forall>m<k - Suc i. drop (Suc i) s ! m = None" using assms(1,2,4) by simp
  qed
  have "interpolate_linear s ! i = interp_cell (shift_prev i None) (first_valid (drop (Suc i) s))"
    unfolding interpolate_linear_def using assms(1,2,4) by (intro interp_from_gap) simp_all
  then show ?thesis by (simp add: fv)
qed

lemma interpolate_trailing:
  assumes "j < i" "i < length s" "s ! j = Some a" "\<forall>m. j < m \<and> m < length s \<longrightarrow> s ! m = None"
  shows "interpolate_linear s ! i = Some a"
proof -
  let ?xs = "drop (Suc j) s" and ?n = "i - Suc j"
  have n: "?n < length ?xs" using assms(1,2) by simp
  have g: "\<forall>m\<le>?n. ?xs ! m = None" using assms(1,2,4) by simp
  have "\<forall>x\<in>set (drop (Suc ?n) ?xs). x = None"
    using assms(1,2,4) by (auto simp: in_set_conv_nth)
  then have fv: "first_valid (drop (Suc ?n) ?xs) = None" by (simp only: first_valid_None)
  have "interpolate_linear s ! i = interp_from (Some (1, a)) ?xs ! ?n"
    unfolding interpolate_linear_def using assms(1-3) by (rule interp_from_after_valid)
  also have "\<dots> = interp_cell (shift_prev ?n (Some (1, a))) (first_valid (drop (Suc ?n) ?xs))"
    using n g by (rule interp_from_gap)
  also have "\<dots> = Some a" unfolding fv by simp
  finally show ?thesis .
qed

lemma interp_cell_None: "(interp_cell p q = None) = (p = None \<and> q = None)"
  by (cases p; cases q) auto

lemma interp_from_closed:
  "prev \<noteq> None \<or> (\<exists>v. Some v \<in> set s) \<Longrightarrow> None \<notin> set (interp_from prev s)"
proof (induction prev s rule: interp_from.induct)
  case (1 prev)
  then show ?case by simp
next
  case (2 prev v xs)
  then show ?case by simp
next
  case (3 prev xs)
  from "3.prems" have "prev \<noteq> None \<or> first_valid xs \<noteq> None"
    by (auto simp: first_valid_None)
  then have "interp_cell prev (first_valid xs) \<noteq> None"
    by (simp add: interp_cell_None)
  moreover from "3.prems" have "None \<notin> set (interp_from (map_option (\<lambda>(d, y0). (Suc d, y0)) prev) xs)"
    by (intro "3.IH") auto
  ultimately show ?case by (auto simp del: not_None_eq)
qed

lemma interpolate_closed: "Some v \<in> set s \<Longrightarrow> None \<notin> set (interpolate_linear s)"
  unfolding interpolate_linear_def by (rule interp_from_closed) blast

lemma interpolate_all_missing:
  "\<forall>x\<in>set s. x = None \<Longrightarrow> interpolate_linear s = s"
proof -
  have "\<forall>x\<in>set s. x = None \<Longrightarrow> interp_from None s = s"
    by (induction s) (auto simp: first_valid_None[THEN iffD2])
  then show "\<forall>x\<in>set s. x = None \<Longrightarrow> interpolate_linear s = s"
    by (simp add: interpolate_linear_def)
qed

lemma length_notna_fold:
  "\<forall>(n, s)\<in>set cs. length s = N \<Longrightarrow>
     length (foldr (\<lambda>(n, s) keep. map2 (\<and>) (map notna s) keep) cs (replicate N True)) = N"
  by (induction cs) auto

lemma notna_fold_nth:
  "\<forall>(n, s)\<in>set cs. length s = N \<Longrightarrow> i < N \<Longrightarrow>
     foldr (\<lambda>(n, s) keep. map2 (\<and>) (map notna s) keep) cs (replicate N True) ! i
       = (\<forall>(n, s)\<in>set cs. notna (s ! i))"
proof (induction cs)
  case Nil
  then show ?case by simp
next
  case (Cons a cs)
  obtain m t where a: "a = (m, t)" by (cases a)
  let ?rest = "foldr (\<lambda>(n, s) keep. map2 (\<and>) (map notna s) keep) cs (replicate N True)"
  from Cons.prems have t: "length t = N" and rest: "\<forall>(n, s)\<in>set cs. length s = N"
    by (auto simp: a)
  from rest have len: "length ?rest = N" by (rule length_notna_fold)
  from Cons.IH[OF rest Cons.prems(2)] t len Cons.prems(2)
  show ?case by (simp add: a)
qed

lemma notna_all_nth:
  "aligned F \<Longrightarrow> i < length (index F) \<Longrightarrow>
     notna_all F ! i = (\<forall>(n, s)\<in>set (cols F). notna (s ! i))"
  unfolding notna_all_def
  by (rule notna_fold_nth) (auto simp: aligned_def list_all_iff)

lemma scenario_eval: "handle_missing_values ''ffill'' scenario_rows = Inr scenario_filled"
  by (simp add: handle_missing_values_def fillna_def clean_fill_method_def map_columns_def
      fill_series_def interpolate_def interpolate_linear_def dropna_def notna_all_def
      mask_rows_def notna_def scenario_rows_def scenario_filled_def)

subsection \<open>The three steps on a frame\<close>

lemma select_rows_nth:
  "length keep = length xs \<Longrightarrow>
     select_rows keep xs = map (nth xs) (filter (\<lambda>i. keep ! i) [0..<length xs])"
proof (induction keep xs rule: list_induct2')
  case (4 k ks x xs)
  then have len: "length ks = length xs" by simp
  let ?js = "filter (\<lambda>i. ks ! i) [0..<length xs]"
  have upt: "[0..<length (x # xs)] = 0 # map Suc [0..<length xs]"
    by (simp add: upt_conv_Cons map_Suc_upt del: upt_Suc)
  have f: "filter (\<lambda>i. (k # ks) ! i) (map Suc [0..<length xs]) = map Suc ?js"
    by (simp add: filter_map comp_def)
  have m: "map (nth (x # xs)) (map Suc ?js) = map (nth xs) ?js"
    by simp
  have "map (nth (x # xs)) (filter (\<lambda>i. (k # ks) ! i) [0..<length (x # xs)])
          = (if k then x # map (nth xs) ?js else map (nth xs) ?js)"
    unfolding upt by (simp only: filter.simps f m nth_Cons_0 list.map if_distrib[of "map _"] split: if_splits)
  with 4(1)[OF len] show ?case by simp
qed simp_all

lemma select_rows_all_True:
  "length keep = length xs \<Longrightarrow> \<forall>k\<in>set keep. k \<Longrightarrow> select_rows keep xs = xs"
  by (induction keep xs rule: list_induct2') auto

lemma aligned_columns: "aligned F \<Longrightarrow> \<forall>(n, u)\<in>set (cols F). length u = length (index F)"
  by (auto simp: aligned_def list_all_iff)

lemma length_notna_all: "aligned F \<Longrightarrow> length (notna_all F) = length (index F)"
  unfolding notna_all_def by (intro length_notna_fold aligned_columns)

lemma getitem_in_cols: "getitem F c = Inr u \<Longrightarrow> (c, u) \<in> set (cols F)"
  by (auto simp: getitem_def split: option.splits dest: map_of_SomeD)

lemma dropna_rows:
  assumes al: "aligned F"
  shows "index (dropna F)
           = map (nth (index F))
               (filter (\<lambda>i. \<forall>(n, u)\<in>set (cols F). u ! i \<noteq> None) [0..<length (index F)])"
    and "getitem F c = Inr u \<Longrightarrow>
         getitem (dropna F) c
           = Inr (map (nth u)
               (filter (\<lambda>i. \<forall>(n, u)\<in>set (cols F). u ! i \<noteq> None) [0..<length (index F)]))"
proof -
  let ?N = "length (index F)"
  have len: "length (notna_all F) = ?N" using al by (rule length_notna_all)
  have flt: "filter (\<lambda>i. notna_all F ! i) [0..<?N]
               = filter (\<lambda>i. \<forall>(n, u)\<in>set (cols F). u ! i \<noteq> None) [0..<?N]"
    by (rule filter_cong) (simp_all add: notna_all_nth[OF al] notna_iff del: not_None_eq)
  show "index (dropna F)
           = map (nth (index F))
               (filter (\<lambda>i. \<forall>(n, u)\<in>set (cols F). u ! i \<noteq> None) [0..<?N])"
    using select_rows_nth[OF len] flt by (simp add: dropna_def)
  assume u: "getitem F c = Inr u"
  with al have lu: "length u = ?N"
    using aligned_columns getitem_in_cols by fastforce
  then have "select_rows (notna_all F) u = map (nth u) (filter (\<lambda>i. notna_all F ! i) [0..<?N])"
    using select_rows_nth[of "notna_all F" u] len by simp
  with flt u show "getitem (dropna F) c
           = Inr (map (nth u)
               (filter (\<lambda>i. \<forall>(n, u)\<in>set (cols F). u ! i \<noteq> None) [0..<?N]))"
    by (simp add: dropna_def getitem_mask_rows)
qed

lemma aligned_map_columns:
  "aligned df \<Longrightarrow> (\<And>s. length (f s) = length s) \<Longrightarrow> aligned (map_columns f df)"
  by (auto simp: aligned_def list_all_iff map_columns_def case_prod_unfold comp_def)

lemma length_interpolate_linear [simp]: "length (interpolate_linear s) = length s"
  by (simp add: interpolate_linear_def)

lemma cols_map_columns: "cols (map_columns f df) = map (\<lambda>(n, s). (n, f s)) (cols df)"
  by (simp add: map_columns_def)

lemma dropna_complete_frame:
  assumes al: "aligned F" and full: "\<forall>(n, u)\<in>set (cols F). None \<notin> set u"
  shows "dropna F = F"
proof -
  let ?N = "length (index F)"
  have len: "length (notna_all F) = ?N" using al by (rule length_notna_all)
  have all: "\<forall>k\<in>set (notna_all F). k"
  proof
    fix k assume "k \<in> set (notna_all F)"
    then obtain i where i: "i < ?N" and k: "k = notna_all F ! i"
      by (auto simp: in_set_conv_nth len)
    have "\<forall>(n, u)\<in>set (cols F). notna (u ! i)"
    proof (clarify)
      fix n u assume nu: "(n, u) \<in> set (cols F)"
      with al have "length u = ?N" using aligned_columns by fastforce
      with i have "u ! i \<in> set u" by simp
      with full nu have "u ! i \<noteq> None" by (metis (mono_tags, lifting) case_prodD)
      then show "notna (u ! i)" by (cases "u ! i") (simp_all add: notna_def)
    qed
    with notna_all_nth[OF al i] k show k by simp
  qed
  have idx: "select_rows (notna_all F) (index F) = index F"
    using len all by (intro select_rows_all_True) simp_all
  have "map (\<lambda>(n, s). (n, select_rows (notna_all F) s)) (cols F) = cols F"
  proof (rule map_idI)
    fix p assume p: "p \<in> set (cols F)"
    with al have "length (snd p) = ?N" using aligned_columns by fastforce
    with len all have "select_rows (notna_all F) (snd p) = snd p"
      by (intro select_rows_all_True) simp_all
    then show "(case p of (n, s) \<Rightarrow> (n, select_rows (notna_all F) s)) = p"
      by (simp add: case_prod_unfold)
  qed
  with idx show ?thesis by (simp add: dropna_def mask_rows_def)
qed

lemma pad_inplace_all_missing:
  "\<forall>x\<in>set s. x = None \<Longrightarrow> pad_inplace limit None k s = s"
  by (induction s arbitrary: k) auto

lemma fill_series_all_missing:
  "\<forall>x\<in>set s. x = None \<Longrightarrow> fill_series d limit s = s"
  by (cases d) (simp_all add: fill_series_def pad_inplace_all_missing)

lemma fill_series_valid: "Some x \<in> set s \<Longrightarrow> Some x \<in> set (fill_series d limit s)"
proof -
  assume "Some x \<in> set s"
  then obtain i where i: "i < length s" "s ! i = Some x" by (auto simp: in_set_conv_nth)
  from fill_series_keeps[of s d limit] i have "fill_series d limit s ! i = Some x"
    by (auto simp: list_all2_conv_all_nth kept_def)
  with i(1) show ?thesis by (metis length_fill_series nth_mem)
qed

lemma dropna_dead_column:
  assumes al: "aligned F" and nu: "(n, u) \<in> set (cols F)" and dead: "\<forall>x\<in>set u. x = None"
  shows "index (dropna F) = []"
proof -
  let ?N = "length (index F)"
  have len: "length (notna_all F) = ?N" using al by (rule length_notna_all)
  from al nu have lu: "length u = ?N" using aligned_columns by fastforce
  have "\<forall>k\<in>set (notna_all F). \<not> k"
  proof
    fix k assume "k \<in> set (notna_all F)"
    then obtain i where i: "i < ?N" and k: "k = notna_all F ! i"
      by (auto simp: in_set_conv_nth len)
    from i lu dead have "u ! i = None" by simp
    then have "\<not> notna (u ! i)" by (simp add: notna_def)
    with nu have "\<not> (\<forall>(n, u)\<in>set (cols F). notna (u ! i))" by blast
    with notna_all_nth[OF al i] k show "\<not> k" by simp
  qed
  then show ?thesis by (simp add: dropna_def select_rows_all_False)
qed


lemma fill_series_kept_nth:
  "i < length s \<Longrightarrow> s ! i = Some v \<Longrightarrow> fill_series d limit s ! i = Some v"
  using fill_series_keeps[of s d limit] by (auto simp: list_all2_conv_all_nth kept_def)

lemma interpolate_kept_nth:
  "i < length t \<Longrightarrow> t ! i = Some v \<Longrightarrow> interpolate_linear t ! i = Some v"
  using interpolate_linear_keeps[of t] by (auto simp: list_all2_conv_all_nth kept_def)

lemma fill_series_forward_leading:
  "i < length s \<Longrightarrow> \<forall>k\<le>i. s ! k = None \<Longrightarrow> fill_series Pad limit s ! i = None"
  by (simp add: fill_series_def pad_leading)

lemma fill_series_backward_trailing:
  assumes "i < length s" "\<forall>k. i \<le> k \<and> k < length s \<longrightarrow> s ! k = None"
  shows "fill_series Backfill limit s ! i = None"
proof -
  let ?L = "length s" and ?i = "length s - Suc i"
  have i': "?i < length (rev s)" using assms(1) by simp
  have "\<forall>k\<le>?i. rev s ! k = None"
  proof (intro allI impI)
    fix k assume k: "k \<le> ?i"
    with assms(1) have "k < ?L" by linarith
    then have "rev s ! k = s ! (?L - Suc k)" by (simp add: rev_nth)
    moreover have "i \<le> ?L - Suc k \<and> ?L - Suc k < ?L" using k assms(1) by linarith
    ultimately show "rev s ! k = None" using assms(2) by simp
  qed
  with i' have "pad_inplace limit None 0 (rev s) ! ?i = None" by (rule pad_leading)
  then show ?thesis using assms(1) by (simp add: fill_series_def rev_nth)
qed

lemma gap_upto:
  "\<forall>n. (j::nat) < n \<and> n < k \<longrightarrow> s ! n = None \<Longrightarrow> i < k \<Longrightarrow> \<forall>n. j < n \<and> n \<le> i \<longrightarrow> s ! n = None"
  by (meson le_less_trans)

lemma ffill_window:
  assumes "j < i" "i < length s" "s ! j = Some v" "\<forall>k. j < k \<and> k \<le> i \<longrightarrow> s ! k = None"
    and w: "i - j \<le> 6"
  shows "interpolate_linear (fill_series Pad 6 s) ! i = Some v"
    and "interpolate_linear (fill_series Pad 6 s) ! (i - 1) = Some v"
proof -
  from fill_series_forward[OF assms(1-4), of 6] w have "fill_series Pad 6 s ! i = Some v"
    by simp
  with assms(2) show "interpolate_linear (fill_series Pad 6 s) ! i = Some v"
    by (intro interpolate_kept_nth) simp_all
  have "fill_series Pad 6 s ! (i - 1) = Some v"
  proof (cases "i - 1 = j")
    case True
    with assms(1-3) show ?thesis by (simp add: fill_series_kept_nth)
  next
    case False
    with assms(1) have "j < i - 1" by linarith
    moreover from assms(2) have "i - 1 < length s" by simp
    moreover have "\<forall>k. j < k \<and> k \<le> i - 1 \<longrightarrow> s ! k = None"
    proof (intro allI impI)
      fix k assume "j < k \<and> k \<le> i - 1"
      then have "j < k \<and> k \<le> i" by linarith
      with assms(4) show "s ! k = None" by blast
    qed
    ultimately have "fill_series Pad 6 s ! (i - 1) = (if i - 1 - j \<le> 6 then Some v else None)"
      using assms(3) by (intro fill_series_forward)
    with w show ?thesis by simp
  qed
  with assms(2) show "interpolate_linear (fill_series Pad 6 s) ! (i - 1) = Some v"
    by (intro interpolate_kept_nth) simp_all
qed

lemma ffill_then_interior:
  assumes "j < i" "i < k" "k < length s" "s ! j = Some v" "s ! k = Some b"
    and gap: "\<forall>n. j < n \<and> n < k \<longrightarrow> s ! n = None" and far: "6 < i - j"
  shows "interpolate_linear (fill_series Pad 6 s) ! i
           = Some ((b - v) / real (k - (j + 6)) * real (i - (j + 6)) + v)"
proof -
  let ?t = "fill_series Pad 6 s"
  have a: "?t ! (j + 6) = Some v"
  proof -
    have "j + 6 < k" using far assms(2) by linarith
    with gap have "\<forall>n. j < n \<and> n \<le> j + 6 \<longrightarrow> s ! n = None"
      by (rule gap_upto)
    then have "?t ! (j + 6) = (if j + 6 - j \<le> 6 then Some v else None)"
      using assms(2,3,4) far by (intro fill_series_forward) simp_all
    then show ?thesis by simp
  qed
  have b: "?t ! k = Some b" using assms(3,5) by (rule fill_series_kept_nth)
  have g: "\<forall>n. j + 6 < n \<and> n < k \<longrightarrow> ?t ! n = None"
  proof (intro allI impI)
    fix n assume n: "j + 6 < n \<and> n < k"
    from n have "n < k" by simp
    with gap have "\<forall>m. j < m \<and> m \<le> n \<longrightarrow> s ! m = None"
      by (rule gap_upto)
    then have "?t ! n = (if n - j \<le> 6 then Some v else None)"
      using n assms(3,4) by (intro fill_series_forward) simp_all
    moreover from n have "\<not> n - j \<le> 6" by linarith
    ultimately show "?t ! n = None" by simp
  qed
  have "interpolate_linear ?t ! i = Some ((b - v) / real (k - (j + 6)) * real (i - (j + 6)) + v)"
    using far assms(2,3) a b g by (intro interpolate_interior) simp_all
  then show ?thesis .
qed

lemma ffill_then_leading:
  assumes "i < k" "k < length s" "s ! k = Some b" "\<forall>n<k. s ! n = None"
  shows "interpolate_linear (fill_series Pad 6 s) ! i = Some b"
proof -
  let ?t = "fill_series Pad 6 s"
  have "?t ! k = Some b" using assms(2,3) by (rule fill_series_kept_nth)
  moreover have "\<forall>n<k. ?t ! n = None"
    using assms(2,4) by (intro allI impI fill_series_forward_leading) simp_all
  ultimately show ?thesis using assms(1,2) by (intro interpolate_leading) simp_all
qed

lemma ffill_then_trailing:
  assumes "j < i" "i < length s" "s ! j = Some v" "\<forall>n. j < n \<and> n < length s \<longrightarrow> s ! n = None"
  shows "interpolate_linear (fill_series Pad 6 s) ! i = Some v"
proof (cases "i - j \<le> 6")
  case True
  from assms(4,2) have "\<forall>k. j < k \<and> k \<le> i \<longrightarrow> s ! k = None"
    by (rule gap_upto)
  with assms(1-3) True show ?thesis by (intro ffill_window(1)) simp_all
next
  case False
  let ?t = "fill_series Pad 6 s"
  have a: "?t ! (j + 6) = Some v"
  proof -
    have "j + 6 < length s" using assms(2) False by linarith
    with assms(4) have "\<forall>n. j < n \<and> n \<le> j + 6 \<longrightarrow> s ! n = None"
      by (rule gap_upto)
    then have "?t ! (j + 6) = (if j + 6 - j \<le> 6 then Some v else None)"
      using assms(2,3) False by (intro fill_series_forward) simp_all
    then show ?thesis by simp
  qed
  have g: "\<forall>n. j + 6 < n \<and> n < length ?t \<longrightarrow> ?t ! n = None"
  proof (intro allI impI)
    fix n assume n: "j + 6 < n \<and> n < length ?t"
    from n have "n < length s" by simp
    with assms(4) have "\<forall>m. j < m \<and> m \<le> n \<longrightarrow> s ! m = None"
      by (rule gap_upto)
    then have "?t ! n = (if n - j \<le> 6 then Some v else None)"
      using n assms(3) by (intro fill_series_forward) simp_all
    moreover from n have "\<not> n - j \<le> 6" by linarith
    ultimately show "?t ! n = None" by simp
  qed
  show ?thesis
    using False assms(2) a g by (intro interpolate_trailing[of "j + 6"]) simp_all
qed

lemma fillna_Inr:
  "clean_fill_method m = Inr d \<Longrightarrow> fillna m limit df = Inr (map_columns (fill_series d limit) df)"
  by (simp add: fillna_def)

lemma clean_fill_method_forward: "m \<in> {''ffill'', ''pad''} \<Longrightarrow> clean_fill_method m = Inr Pad"
  by (auto simp: clean_fill_method_def)

lemma clean_fill_method_backward:
  "m \<in> {''bfill'', ''backfill''} \<Longrightarrow> clean_fill_method m = Inr Backfill"
  by (auto simp: clean_fill_method_def)

lemma getitem_interpolate:
  "getitem G c = Inr t \<Longrightarrow> getitem (interpolate G) c = Inr (interpolate_linear t)"
  by (simp add: interpolate_def getitem_map_columns)

lemma interpolate_fill_complete:
  assumes al: "aligned df" and live: "\<forall>(n, u)\<in>set (cols df). \<exists>x. Some x \<in> set u"
  shows "aligned (interpolate (map_columns (fill_series d 6) df))"
    and "\<forall>(n, u)\<in>set (cols (interpolate (map_columns (fill_series d 6) df))). None \<notin> set u"
proof -
  show "aligned (interpolate (map_columns (fill_series d 6) df))"
    unfolding interpolate_def using al by (intro aligned_map_columns) simp_all
  show "\<forall>(n, u)\<in>set (cols (interpolate (map_columns (fill_series d 6) df))). None \<notin> set u"
  proof (clarify)
    fix n u assume "(n, u) \<in> set (cols (interpolate (map_columns (fill_series d 6) df)))"
      and none: "None \<in> set u"
    then obtain s where s: "(n, s) \<in> set (cols df)"
      and u: "u = interpolate_linear (fill_series d 6 s)"
      by (auto simp: interpolate_def cols_map_columns)
    from live s obtain x where "Some x \<in> set s" by blast
    then have "Some x \<in> set (fill_series d 6 s)" by (rule fill_series_valid)
    then have "None \<notin> set u" unfolding u by (rule interpolate_closed)
    with none show False by blast
  qed
qed

lemma handle_missing_values_all_kept:
  assumes al: "aligned df" and live: "\<forall>(n, u)\<in>set (cols df). \<exists>x. Some x \<in> set u"
    and d: "clean_fill_method m = Inr d"
  shows "handle_missing_values m df = Inr (interpolate (map_columns (fill_series d 6) df))"
  using handle_missing_values_total[OF d, of df]
    dropna_complete_frame[OF interpolate_fill_complete[OF al live, of d]]
  by simp

lemma handle_missing_values_dead_column:
  assumes al: "aligned df" and nu: "(n, u) \<in> set (cols df)" and dead: "\<forall>x\<in>set u. x = None"
    and run: "handle_missing_values m df = Inr out"
  shows "index out = []"
proof -
  from handle_missing_values_Inr[OF run] obtain d where
    out: "out = dropna (interpolate (map_columns (fill_series d 6) df))" by blast
  let ?F = "interpolate (map_columns (fill_series d 6) df)"
  have alF: "aligned ?F" unfolding interpolate_def using al by (intro aligned_map_columns) simp_all
  from dead have "interpolate_linear (fill_series d 6 u) = u"
    by (simp add: fill_series_all_missing interpolate_all_missing)
  with nu have "(n, u) \<in> set (cols ?F)"
    by (force simp: interpolate_def cols_map_columns)
  from dropna_dead_column[OF alF this dead] show ?thesis by (simp add: out)
qed

lemmas eval_missing =
  handle_missing_values_def fillna_def clean_fill_method_def map_columns_def
  fill_series_def interpolate_def interpolate_linear_def dropna_def notna_all_def
  mask_rows_def notna_def

lemma long_gap_eval: "handle_missing_values ''ffill'' long_gap_rows = Inr long_gap_filled"
  by (simp add: eval_missing long_gap_rows_def long_gap_filled_def)

lemma dead_eval: "handle_missing_values ''ffill'' dead_rows = Inr dead_dropped"
  by (simp add: eval_missing dead_rows_def dead_dropped_def)

lemma scenario_aligned: "aligned scenario_rows"
  by (simp add: aligned_def scenario_rows_def)

lemma scenario_live: "\<forall>(n, u)\<in>set (cols scenario_rows). \<exists>x. Some x \<in> set u"
  apply (auto simp: scenario_rows_def)
   apply (rule exI[of _ "7/2"], simp)
  apply (rule exI[of _ "2/5"], simp)
  done

lemma scenario_power: "getitem scenario_rows ''Global_active_power'' = Inr [Some 3.5, None]"
  by (simp add: getitem_def scenario_rows_def)

lemma scenario_gap: "\<forall>k. (0::nat) < k \<and> k \<le> 1 \<longrightarrow> [Some 3.5, None] ! k = (None :: real option)"
  by (auto simp: nth_Cons')

lemma voltage_gap:
  "\<forall>n. (0::nat) < n \<and> n < 9 \<longrightarrow>
     [Some 230, None, None, None, None, None, None, None, None, Some (239::real)] ! n = None"
  by (auto simp: nth_Cons')

lemma intensity_gap:
  "\<forall>n<(2::nat). [None, None, Some 4, Some 4, Some 5, Some 5, Some 4, Some 4, Some 5, Some (5::real)] ! n
     = None"
  by (auto simp: nth_Cons')

lemma long_gap_aligned: "aligned long_gap_rows"
  by (simp add: aligned_def long_gap_rows_def)

lemma long_gap_live: "\<forall>(n, u)\<in>set (cols long_gap_rows). \<exists>x. Some x \<in> set u"
  by (auto simp: long_gap_rows_def)

lemma long_gap_voltage:
  "getitem long_gap_rows ''Voltage''
     = Inr [Some 230, None, None, None, None, None, None, None, None, Some 239]"
  by (simp add: getitem_def long_gap_rows_def)

lemma long_gap_intensity:
  "getitem long_gap_rows ''Global_intensity''
     = Inr [None, None, Some 4, Some 4, Some 5, Some 5, Some 4, Some 4, Some 5, Some 5]"
  by (simp add: getitem_def long_gap_rows_def)

lemma dead_aligned: "aligned dead_rows"
  by (simp add: aligned_def dead_rows_def)

subsection \<open>Claims about handle_missing_values\<close>

text \<open>
  Claim C2. With one of the fill methods pandas accepts the function returns a table, and
  the table it returns has no missing cell in any column: the count it prints is 0.
\<close>

theorem handle_missing_values_no_missing:
  "(m \<in> {''ffill'', ''pad'', ''bfill'', ''backfill''} \<longrightarrow>
      (\<exists>out. handle_missing_values m df = Inr out))
   \<and> (handle_missing_values m df = Inr out \<longrightarrow>
        isnull_sum out = 0 \<and> (\<forall>(n, s)\<in>set (cols out). None \<notin> set s))"
proof (intro conjI impI)
  assume "m \<in> {''ffill'', ''pad'', ''bfill'', ''backfill''}"
  then obtain d where "clean_fill_method m = Inr d"
    by (auto simp: clean_fill_method_def)
  from handle_missing_values_total[OF this]
  show "\<exists>out. handle_missing_values m df = Inr out" by blast
next
  assume "handle_missing_values m df = Inr out"
  from handle_missing_values_Inr[OF this] obtain d where
    out: "out = dropna (interpolate (map_columns (fill_series d 6) df))" by blast
  then show all: "\<forall>(n, s)\<in>set (cols out). None \<notin> set s"
    using dropna_complete by blast
  then show "isnull_sum out = 0" by (simp add: isnull_sum_0_iff)
qed

theorem handle_missing_values_no_missing_witness:
  "handle_missing_values ''ffill'' scenario_rows = Inr scenario_filled
   \<and> isnull_sum scenario_rows = 2 \<and> isnull_sum scenario_filled = 0"
  using handle_missing_values_no_missing[of "''ffill''" scenario_rows scenario_filled]
  by (simp add: scenario_eval) (simp add: isnull_sum_def scenario_rows_def)

text \<open>
  Claim C7. The function is the bounded fill, then the interpolation, then the drop, and
  each step does its part on the frame.
  \<^item> The fill (forward for \<open>ffill\<close> and \<open>pad\<close>, backward for \<open>bfill\<close> and \<open>backfill\<close>) leaves
    every value as it is, gives a missing cell the nearest valid value of its column in
    the fill direction when that is at most 6 rows away, and leaves it missing otherwise.
  \<^item> The interpolation leaves every value as it is, puts a missing cell between two valid
    cells on the line through them, gives a cell before the first valid cell that cell's
    value and a cell after the last valid cell that one's, and leaves a column with no
    value unchanged.
  \<^item> The drop returns exactly the rows in which every column has a value, in order.
  \<^item> So for a table whose columns are as long as its index: when every column has a
    value, no row is dropped and no cell of the result is missing; when some column has
    none, every row is dropped. With the forward fill the result has, in every column, the
    last valid value up to 6 rows after it (the same as in the row before), the straight
    line from the sixth filled cell to the next valid cell beyond that, the first valid
    value before it, and the last valid value after it.
\<close>

theorem handle_missing_values_three_steps:
  "handle_missing_values m df =
     (case fillna m 6 df of Inl e \<Rightarrow> Inl e | Inr df1 \<Rightarrow> Inr (dropna (interpolate df1)))
   \<and> (m \<in> {''ffill'', ''pad''} \<and> getitem df c = Inr s \<longrightarrow>
        (\<exists>df1 s1. fillna m 6 df = Inr df1 \<and> index df1 = index df \<and> getitem df1 c = Inr s1
           \<and> length s1 = length s
           \<and> (\<forall>i v. i < length s \<and> s ! i = Some v \<longrightarrow> s1 ! i = Some v)
           \<and> (\<forall>i j v. j < i \<and> i < length s \<and> s ! j = Some v
                 \<and> (\<forall>k. j < k \<and> k \<le> i \<longrightarrow> s ! k = None)
                 \<longrightarrow> s1 ! i = (if i - j \<le> 6 then Some v else None))
           \<and> (\<forall>i. i < length s \<and> (\<forall>k\<le>i. s ! k = None) \<longrightarrow> s1 ! i = None)))
   \<and> (m \<in> {''bfill'', ''backfill''} \<and> getitem df c = Inr s \<longrightarrow>
        (\<exists>df1 s1. fillna m 6 df = Inr df1 \<and> index df1 = index df \<and> getitem df1 c = Inr s1
           \<and> length s1 = length s
           \<and> (\<forall>i v. i < length s \<and> s ! i = Some v \<longrightarrow> s1 ! i = Some v)
           \<and> (\<forall>i k v. i < k \<and> k < length s \<and> s ! k = Some v
                 \<and> (\<forall>n. i \<le> n \<and> n < k \<longrightarrow> s ! n = None)
                 \<longrightarrow> s1 ! i = (if k - i \<le> 6 then Some v else None))
           \<and> (\<forall>i. i < length s \<and> (\<forall>k. i \<le> k \<and> k < length s \<longrightarrow> s ! k = None)
                 \<longrightarrow> s1 ! i = None)))
   \<and> (getitem G c = Inr t \<longrightarrow>
        (\<exists>t2. getitem (interpolate G) c = Inr t2 \<and> index (interpolate G) = index G
           \<and> length t2 = length t
           \<and> (\<forall>i v. i < length t \<and> t ! i = Some v \<longrightarrow> t2 ! i = Some v)
           \<and> (\<forall>i j k a b. j < i \<and> i < k \<and> k < length t \<and> t ! j = Some a \<and> t ! k = Some b
                 \<and> (\<forall>n. j < n \<and> n < k \<longrightarrow> t ! n = None)
                 \<longrightarrow> t2 ! i = Some ((b - a) / real (k - j) * real (i - j) + a))
           \<and> (\<forall>i k b. i < k \<and> k < length t \<and> t ! k = Some b \<and> (\<forall>n<k. t ! n = None)
                 \<longrightarrow> t2 ! i = Some b)
           \<and> (\<forall>i j a. j < i \<and> i < length t \<and> t ! j = Some a
                 \<and> (\<forall>n. j < n \<and> n < length t \<longrightarrow> t ! n = None)
                 \<longrightarrow> t2 ! i = Some a)
           \<and> ((\<forall>x\<in>set t. x = None) \<longrightarrow> t2 = t)))
   \<and> (aligned F \<longrightarrow>
        index (dropna F)
          = map (nth (index F))
              (filter (\<lambda>i. \<forall>(n, u)\<in>set (cols F). u ! i \<noteq> None) [0..<length (index F)])
        \<and> (\<forall>c u. getitem F c = Inr u \<longrightarrow>
              getitem (dropna F) c
                = Inr (map (nth u)
                    (filter (\<lambda>i. \<forall>(n, u)\<in>set (cols F). u ! i \<noteq> None) [0..<length (index F)]))))
   \<and> (aligned df \<and> handle_missing_values m df = Inr out \<longrightarrow>
        ((\<forall>(n, u)\<in>set (cols df). \<exists>x. Some x \<in> set u) \<longrightarrow>
            index out = index df \<and> map fst (cols out) = map fst (cols df)
            \<and> (\<forall>(n, u)\<in>set (cols out). length u = length (index df) \<and> None \<notin> set u))
        \<and> ((\<exists>(n, u)\<in>set (cols df). \<forall>x\<in>set u. x = None) \<longrightarrow> index out = [])
        \<and> (m \<in> {''ffill'', ''pad''} \<and> (\<forall>(n, u)\<in>set (cols df). \<exists>x. Some x \<in> set u)
             \<and> getitem df c = Inr s \<longrightarrow>
            (\<exists>s'. getitem out c = Inr s' \<and> length s' = length s
               \<and> (\<forall>i v. i < length s \<and> s ! i = Some v \<longrightarrow> s' ! i = Some v)
               \<and> (\<forall>i j v. j < i \<and> i < length s \<and> s ! j = Some v
                     \<and> (\<forall>k. j < k \<and> k \<le> i \<longrightarrow> s ! k = None) \<and> i - j \<le> 6
                     \<longrightarrow> s' ! i = Some v \<and> s' ! (i - 1) = Some v)
               \<and> (\<forall>i j k v b. j < i \<and> i < k \<and> k < length s \<and> s ! j = Some v \<and> s ! k = Some b
                     \<and> (\<forall>n. j < n \<and> n < k \<longrightarrow> s ! n = None) \<and> 6 < i - j
                     \<longrightarrow> s' ! i = Some ((b - v) / real (k - (j + 6)) * real (i - (j + 6)) + v))
               \<and> (\<forall>i k b. i < k \<and> k < length s \<and> s ! k = Some b \<and> (\<forall>n<k. s ! n = None)
                     \<longrightarrow> s' ! i = Some b)
               \<and> (\<forall>i j v. j < i \<and> i < length s \<and> s ! j = Some v
                     \<and> (\<forall>n. j < n \<and> n < length s \<longrightarrow> s ! n = None)
                     \<longrightarrow> s' ! i = Some v))))"
  (is "?P1 \<and> ?P2 \<and> ?P3 \<and> ?P4 \<and> ?P5 \<and> ?P6")
proof -
  have p1: ?P1
    by (simp add: handle_missing_values_def split: sum.splits)
  have p2: ?P2
  proof (intro impI, elim conjE)
    assume m: "m \<in> {''ffill'', ''pad''}" and s: "getitem df c = Inr s"
    let ?df1 = "map_columns (fill_series Pad 6) df" and ?s1 = "fill_series Pad 6 s"
    have "fillna m 6 df = Inr ?df1"
      using clean_fill_method_forward[OF m] by (rule fillna_Inr)
    moreover have "getitem ?df1 c = Inr ?s1" by (simp add: getitem_map_columns s)
    ultimately show "\<exists>df1 s1. fillna m 6 df = Inr df1 \<and> index df1 = index df \<and> getitem df1 c = Inr s1
           \<and> length s1 = length s
           \<and> (\<forall>i v. i < length s \<and> s ! i = Some v \<longrightarrow> s1 ! i = Some v)
           \<and> (\<forall>i j v. j < i \<and> i < length s \<and> s ! j = Some v
                 \<and> (\<forall>k. j < k \<and> k \<le> i \<longrightarrow> s ! k = None)
                 \<longrightarrow> s1 ! i = (if i - j \<le> 6 then Some v else None))
           \<and> (\<forall>i. i < length s \<and> (\<forall>k\<le>i. s ! k = None) \<longrightarrow> s1 ! i = None)"
      by (intro exI[of _ ?df1] exI[of _ ?s1])
         (simp add: fill_series_kept_nth fill_series_forward fill_series_forward_leading)
  qed
  have p3: ?P3
  proof (intro impI, elim conjE)
    assume m: "m \<in> {''bfill'', ''backfill''}" and s: "getitem df c = Inr s"
    let ?df1 = "map_columns (fill_series Backfill 6) df" and ?s1 = "fill_series Backfill 6 s"
    have "fillna m 6 df = Inr ?df1"
      using clean_fill_method_backward[OF m] by (rule fillna_Inr)
    moreover have "getitem ?df1 c = Inr ?s1" by (simp add: getitem_map_columns s)
    ultimately show "\<exists>df1 s1. fillna m 6 df = Inr df1 \<and> index df1 = index df \<and> getitem df1 c = Inr s1
           \<and> length s1 = length s
           \<and> (\<forall>i v. i < length s \<and> s ! i = Some v \<longrightarrow> s1 ! i = Some v)
           \<and> (\<forall>i k v. i < k \<and> k < length s \<and> s ! k = Some v
                 \<and> (\<forall>n. i \<le> n \<and> n < k \<longrightarrow> s ! n = None)
                 \<longrightarrow> s1 ! i = (if k - i \<le> 6 then Some v else None))
           \<and> (\<forall>i. i < length s \<and> (\<forall>k. i \<le> k \<and> k < length s \<longrightarrow> s ! k = None)
                 \<longrightarrow> s1 ! i = None)"
      by (intro exI[of _ ?df1] exI[of _ ?s1])
         (simp add: fill_series_kept_nth fill_series_backward fill_series_backward_trailing)
  qed
  have p4: ?P4
  proof
    assume t: "getitem G c = Inr t"
    show "\<exists>t2. getitem (interpolate G) c = Inr t2 \<and> index (interpolate G) = index G
           \<and> length t2 = length t
           \<and> (\<forall>i v. i < length t \<and> t ! i = Some v \<longrightarrow> t2 ! i = Some v)
           \<and> (\<forall>i j k a b. j < i \<and> i < k \<and> k < length t \<and> t ! j = Some a \<and> t ! k = Some b
                 \<and> (\<forall>n. j < n \<and> n < k \<longrightarrow> t ! n = None)
                 \<longrightarrow> t2 ! i = Some ((b - a) / real (k - j) * real (i - j) + a))
           \<and> (\<forall>i k b. i < k \<and> k < length t \<and> t ! k = Some b \<and> (\<forall>n<k. t ! n = None)
                 \<longrightarrow> t2 ! i = Some b)
           \<and> (\<forall>i j a. j < i \<and> i < length t \<and> t ! j = Some a
                 \<and> (\<forall>n. j < n \<and> n < length t \<longrightarrow> t ! n = None)
                 \<longrightarrow> t2 ! i = Some a)
           \<and> ((\<forall>x\<in>set t. x = None) \<longrightarrow> t2 = t)"
    proof (intro exI[of _ "interpolate_linear t"] conjI allI impI; (elim conjE)?)
      show "getitem (interpolate G) c = Inr (interpolate_linear t)"
        using t by (rule getitem_interpolate)
      show "index (interpolate G) = index G" by (simp add: interpolate_def)
      show "length (interpolate_linear t) = length t" by simp
    next
      fix i v assume "i < length t" "t ! i = Some v"
      then show "interpolate_linear t ! i = Some v" by (rule interpolate_kept_nth)
    next
      fix i j k a b
      assume "j < i" "i < k" "k < length t" "t ! j = Some a" "t ! k = Some b"
        "\<forall>n. j < n \<and> n < k \<longrightarrow> t ! n = None"
      then show "interpolate_linear t ! i = Some ((b - a) / real (k - j) * real (i - j) + a)"
        by (rule interpolate_interior)
    next
      fix i k b assume "i < k" "k < length t" "t ! k = Some b" "\<forall>n<k. t ! n = None"
      then show "interpolate_linear t ! i = Some b" by (rule interpolate_leading)
    next
      fix i j a
      assume "j < i" "i < length t" "t ! j = Some a" "\<forall>n. j < n \<and> n < length t \<longrightarrow> t ! n = None"
      then show "interpolate_linear t ! i = Some a" by (rule interpolate_trailing)
    next
      assume "\<forall>x\<in>set t. x = None"
      then show "interpolate_linear t = t" by (rule interpolate_all_missing)
    qed
  qed
  have p5: ?P5
    using dropna_rows by blast
  have p6: ?P6
  proof (intro impI, elim conjE)
    assume al: "aligned df" and run: "handle_missing_values m df = Inr out"
    from handle_missing_values_Inr[OF run] obtain d where d: "clean_fill_method m = Inr d"
      by blast
    let ?F = "interpolate (map_columns (fill_series d 6) df)"
    have a: "index out = index df \<and> map fst (cols out) = map fst (cols df)
            \<and> (\<forall>(n, u)\<in>set (cols out). length u = length (index df) \<and> None \<notin> set u)"
      if live: "\<forall>(n, u)\<in>set (cols df). \<exists>x. Some x \<in> set u"
    proof -
      from handle_missing_values_all_kept[OF al live d] run have out: "out = ?F" by simp
      have "aligned ?F" "\<forall>(n, u)\<in>set (cols ?F). None \<notin> set u"
        using interpolate_fill_complete[OF al live] by blast+
      moreover have "index ?F = index df" "map fst (cols ?F) = map fst (cols df)"
        by (simp_all add: interpolate_def)
      ultimately show ?thesis
        unfolding out using aligned_columns[of ?F] by auto
    qed
    have b: "index out = []" if "\<exists>(n, u)\<in>set (cols df). \<forall>x\<in>set u. x = None"
      using that handle_missing_values_dead_column[OF al _ _ run] by blast
    have c: "\<exists>s'. getitem out c = Inr s' \<and> length s' = length s
               \<and> (\<forall>i v. i < length s \<and> s ! i = Some v \<longrightarrow> s' ! i = Some v)
               \<and> (\<forall>i j v. j < i \<and> i < length s \<and> s ! j = Some v
                     \<and> (\<forall>k. j < k \<and> k \<le> i \<longrightarrow> s ! k = None) \<and> i - j \<le> 6
                     \<longrightarrow> s' ! i = Some v \<and> s' ! (i - 1) = Some v)
               \<and> (\<forall>i j k v b. j < i \<and> i < k \<and> k < length s \<and> s ! j = Some v \<and> s ! k = Some b
                     \<and> (\<forall>n. j < n \<and> n < k \<longrightarrow> s ! n = None) \<and> 6 < i - j
                     \<longrightarrow> s' ! i = Some ((b - v) / real (k - (j + 6)) * real (i - (j + 6)) + v))
               \<and> (\<forall>i k b. i < k \<and> k < length s \<and> s ! k = Some b \<and> (\<forall>n<k. s ! n = None)
                     \<longrightarrow> s' ! i = Some b)
               \<and> (\<forall>i j v. j < i \<and> i < length s \<and> s ! j = Some v
                     \<and> (\<forall>n. j < n \<and> n < length s \<longrightarrow> s ! n = None)
                     \<longrightarrow> s' ! i = Some v)"
      if m: "m \<in> {''ffill'', ''pad''}" and live: "\<forall>(n, u)\<in>set (cols df). \<exists>x. Some x \<in> set u"
        and s: "getitem df c = Inr s"
    proof -
      from clean_fill_method_forward[OF m] d have dP: "d = Pad" by simp
      from handle_missing_values_all_kept[OF al live d] run have out: "out = ?F" by simp
      let ?s' = "interpolate_linear (fill_series Pad 6 s)"
      have g: "getitem out c = Inr ?s'"
        by (simp add: out dP interpolate_def getitem_map_columns s)
      have k: "\<forall>i v. i < length s \<and> s ! i = Some v \<longrightarrow> ?s' ! i = Some v"
        by (simp add: interpolate_kept_nth fill_series_kept_nth)
      show ?thesis
      proof (intro exI[of _ ?s'] conjI g k allI impI; (elim conjE)?)
        show "length ?s' = length s" by simp
      next
        fix i j v
        assume "j < i" "i < length s" "s ! j = Some v" "\<forall>k. j < k \<and> k \<le> i \<longrightarrow> s ! k = None"
          "i - j \<le> 6"
        then show "?s' ! i = Some v" "?s' ! (i - 1) = Some v"
          by (rule ffill_window)+
      next
        fix i j k v b
        assume "j < i" "i < k" "k < length s" "s ! j = Some v" "s ! k = Some b"
          "\<forall>n. j < n \<and> n < k \<longrightarrow> s ! n = None" "6 < i - j"
        then show "?s' ! i = Some ((b - v) / real (k - (j + 6)) * real (i - (j + 6)) + v)"
          by (rule ffill_then_interior)
      next
        fix i k b assume "i < k" "k < length s" "s ! k = Some b" "\<forall>n<k. s ! n = None"
        then show "?s' ! i = Some b" by (rule ffill_then_leading)
      next
        fix i j v
        assume "j < i" "i < length s" "s ! j = Some v" "\<forall>n. j < n \<and> n < length s \<longrightarrow> s ! n = None"
        then show "?s' ! i = Some v" by (rule ffill_then_trailing)
      qed
    qed
    from a b c show "((\<forall>(n, u)\<in>set (cols df). \<exists>x. Some x \<in> set u) \<longrightarrow>
            index out = index df \<and> map fst (cols out) = map fst (cols df)
            \<and> (\<forall>(n, u)\<in>set (cols out). length u = length (index df) \<and> None \<notin> set u))
        \<and> ((\<exists>(n, u)\<in>set (cols df). \<forall>x\<in>set u. x = None) \<longrightarrow> index out = [])
        \<and> (m \<in> {''ffill'', ''pad''} \<and> (\<forall>(n, u)\<in>set (cols df). \<exists>x. Some x \<in> set u)
             \<and> getitem df c = Inr s \<longrightarrow>
            (\<exists>s'. getitem out c = Inr s' \<and> length s' = length s
               \<and> (\<forall>i v. i < length s \<and> s ! i = Some v \<longrightarrow> s' ! i = Some v)
               \<and> (\<forall>i j v. j < i \<and> i < length s \<and> s ! j = Some v
                     \<and> (\<forall>k. j < k \<and> k \<le> i \<longrightarrow> s ! k = None) \<and> i - j \<le> 6
                     \<longrightarrow> s' ! i = Some v \<and> s' ! (i - 1) = Some v)
               \<and> (\<forall>i j k v b. j < i \<and> i < k \<and> k < length s \<and> s ! j = Some v \<and> s ! k = Some b
                     \<and> (\<forall>n. j < n \<and> n < k \<longrightarrow> s ! n = None) \<and> 6 < i - j
                     \<longrightarrow> s' ! i = Some ((b - v) / real (k - (j + 6)) * real (i - (j + 6)) + v))
               \<and> (\<forall>i k b. i < k \<and> k < length s \<and> s ! k = Some b \<and> (\<forall>n<k. s ! n = None)
                     \<longrightarrow> s' ! i = Some b)
               \<and> (\<forall>i j v. j < i \<and> i < length s \<and> s ! j = Some v
                     \<and> (\<forall>n. j < n \<and> n < length s \<longrightarrow> s ! n = None)
                     \<longrightarrow> s' ! i = Some v)))"
      by blast
  qed
  from p1 p2 p3 p4 p5 p6 show ?thesis by (intro conjI)
qed

theorem handle_missing_values_three_steps_witness:
  "handle_missing_values ''ffill'' scenario_rows = Inr scenario_filled
   \<and> (\<exists>s'. getitem scenario_filled ''Global_active_power'' = Inr s'
         \<and> s' ! 0 = Some 3.5 \<and> s' ! 1 = Some 3.5)
   \<and> handle_missing_values ''ffill'' long_gap_rows = Inr long_gap_filled
   \<and> handle_missing_values ''ffill'' dead_rows = Inr dead_dropped
   \<and> index long_gap_filled = index long_gap_rows
   \<and> index dead_dropped = []
   \<and> (\<exists>s'. getitem long_gap_filled ''Voltage'' = Inr s'
         \<and> s' ! 0 = Some 230 \<and> s' ! 5 = Some 230 \<and> s' ! 6 = Some 230
         \<and> s' ! 7 = Some 233 \<and> s' ! 8 = Some 236 \<and> s' ! 9 = Some 239)
   \<and> (\<exists>s'. getitem long_gap_filled ''Global_intensity'' = Inr s'
         \<and> s' ! 0 = Some 4 \<and> s' ! 1 = Some 4)
   \<and> (\<exists>df1 s1. fillna ''ffill'' 6 long_gap_rows = Inr df1 \<and> getitem df1 ''Voltage'' = Inr s1
         \<and> s1 ! 6 = Some 230 \<and> s1 ! 7 = None)
   \<and> (\<exists>df1 s1. fillna ''bfill'' 6 long_gap_rows = Inr df1 \<and> getitem df1 ''Voltage'' = Inr s1
         \<and> s1 ! 3 = Some 239 \<and> s1 ! 2 = None)
   \<and> (\<exists>t2. getitem (interpolate long_gap_rows) ''Voltage'' = Inr t2 \<and> t2 ! 3 = Some 233)
   \<and> (\<exists>t2. getitem (interpolate dead_rows) ''Global_intensity'' = Inr t2 \<and> t2 = [None, None])
   \<and> index (dropna dead_rows) = []"
proof -
  note T = handle_missing_values_three_steps
  let ?v = "[Some 230, None, None, None, None, None, None, None, None, Some (239::real)]"
  let ?g = "[None, None, Some 4, Some 4, Some 5, Some 5, Some 4, Some 4, Some 5, Some (5::real)]"
  have gap_le: "\<forall>k. 0 < k \<and> k \<le> i \<longrightarrow> ?v ! k = None" if "i < 9" for i :: nat
    using voltage_gap that by (meson le_less_trans)
  have gap_ge: "\<forall>n. i \<le> n \<and> n < 9 \<longrightarrow> ?v ! n = None" if "0 < i" for i :: nat
    using voltage_gap that by (meson less_le_trans)
  have ff: "''ffill'' \<in> {''ffill'', ''pad''}" and bf: "''bfill'' \<in> {''bfill'', ''backfill''}"
    by simp_all
  \<comment> \<open>the whole function, every column with a value\<close>
  note whole = T[THEN conjunct2, THEN conjunct2, THEN conjunct2, THEN conjunct2, THEN conjunct2,
      THEN mp, OF conjI[OF long_gap_aligned long_gap_eval]]
  from whole[THEN conjunct1, THEN mp, OF long_gap_live]
  have kept_all: "index long_gap_filled = index long_gap_rows" by (rule conjunct1)
  from whole[THEN conjunct2, THEN conjunct2, THEN mp,
      OF conjI[OF ff conjI[OF long_gap_live long_gap_voltage]]]
  obtain s' where s': "getitem long_gap_filled ''Voltage'' = Inr s'"
    and keep: "\<forall>i v. i < length ?v \<and> ?v ! i = Some v \<longrightarrow> s' ! i = Some v"
    and win: "\<forall>i j v. j < i \<and> i < length ?v \<and> ?v ! j = Some v
                     \<and> (\<forall>k. j < k \<and> k \<le> i \<longrightarrow> ?v ! k = None) \<and> i - j \<le> 6
                     \<longrightarrow> s' ! i = Some v \<and> s' ! (i - 1) = Some v"
    and lin: "\<forall>i j k v b. j < i \<and> i < k \<and> k < length ?v \<and> ?v ! j = Some v \<and> ?v ! k = Some b
                     \<and> (\<forall>n. j < n \<and> n < k \<longrightarrow> ?v ! n = None) \<and> 6 < i - j
                     \<longrightarrow> s' ! i = Some ((b - v) / real (k - (j + 6)) * real (i - (j + 6)) + v)"
    by (elim exE conjE) (rule that; assumption)
  from keep[rule_format, of 0 230] keep[rule_format, of 9 239]
  have v0: "s' ! 0 = Some 230" and v9: "s' ! 9 = Some 239" by simp_all
  from win[rule_format, of 0 6 230] gap_le[of 6]
  have v6: "s' ! 6 = Some 230" and v5: "s' ! 5 = Some 230" by simp_all
  from lin[rule_format, of 0 7 9 230 239] voltage_gap have v7: "s' ! 7 = Some 233" by simp
  from lin[rule_format, of 0 8 9 230 239] voltage_gap have v8: "s' ! 8 = Some 236" by simp
  \<comment> \<open>the row after a complete row\<close>
  note scen = T[THEN conjunct2, THEN conjunct2, THEN conjunct2, THEN conjunct2, THEN conjunct2,
      THEN mp, OF conjI[OF scenario_aligned scenario_eval]]
  from scen[THEN conjunct2, THEN conjunct2, THEN mp,
      OF conjI[OF ff conjI[OF scenario_live scenario_power]]]
  obtain p' where p': "getitem scenario_filled ''Global_active_power'' = Inr p'"
    and pw: "\<forall>i j v. j < i \<and> i < length [Some 3.5, None :: real option]
                     \<and> [Some 3.5, None] ! j = Some v
                     \<and> (\<forall>k. j < k \<and> k \<le> i \<longrightarrow> [Some 3.5, None :: real option] ! k = None)
                     \<and> i - j \<le> 6
                     \<longrightarrow> p' ! i = Some v \<and> p' ! (i - 1) = Some v"
    by (elim exE conjE) (rule that; assumption)
  from pw[rule_format, of 0 1 "3.5"] scenario_gap
  have p01: "p' ! 1 = Some 3.5" "p' ! 0 = Some 3.5" by simp_all
  have w0: "\<exists>s'. getitem scenario_filled ''Global_active_power'' = Inr s'
         \<and> s' ! 0 = Some 3.5 \<and> s' ! 1 = Some 3.5"
    using p' p01 by (intro exI[of _ p']) simp
  \<comment> \<open>a gap at the start\<close>
  from whole[THEN conjunct2, THEN conjunct2, THEN mp,
      OF conjI[OF ff conjI[OF long_gap_live long_gap_intensity]]]
  obtain g' where g': "getitem long_gap_filled ''Global_intensity'' = Inr g'"
    and lead: "\<forall>i k b. i < k \<and> k < length ?g \<and> ?g ! k = Some b \<and> (\<forall>n<k. ?g ! n = None)
                     \<longrightarrow> g' ! i = Some b"
    by (elim exE conjE) (rule that; assumption)
  from lead[rule_format, of 0 2 4] lead[rule_format, of 1 2 4] intensity_gap
  have g0: "g' ! 0 = Some 4" "g' ! 1 = Some 4" by simp_all
  \<comment> \<open>a column with no value\<close>
  have dead: "\<exists>(n, u)\<in>set (cols dead_rows). \<forall>x\<in>set u. x = None"
    by (simp add: dead_rows_def)
  note gone = T[THEN conjunct2, THEN conjunct2, THEN conjunct2, THEN conjunct2, THEN conjunct2,
      THEN mp, OF conjI[OF dead_aligned dead_eval]]
  from gone[THEN conjunct2, THEN conjunct1, THEN mp, OF dead]
  have d0: "index dead_dropped = []" .
  \<comment> \<open>the forward and the backward fill alone\<close>
  from T[THEN conjunct2, THEN conjunct1, THEN mp, OF conjI[OF ff long_gap_voltage]]
  obtain df1 s1 where f: "fillna ''ffill'' 6 long_gap_rows = Inr df1" "getitem df1 ''Voltage'' = Inr s1"
    and fw: "\<forall>i j v. j < i \<and> i < length ?v \<and> ?v ! j = Some v
                 \<and> (\<forall>k. j < k \<and> k \<le> i \<longrightarrow> ?v ! k = None)
                 \<longrightarrow> s1 ! i = (if i - j \<le> 6 then Some v else None)"
    by (elim exE conjE) (rule that; assumption)
  from fw[rule_format, of 0 6 230] fw[rule_format, of 0 7 230] gap_le[of 6] gap_le[of 7]
  have f67: "s1 ! 6 = Some 230" "s1 ! 7 = None" by simp_all
  from T[THEN conjunct2, THEN conjunct2, THEN conjunct1, THEN mp, OF conjI[OF bf long_gap_voltage]]
  obtain df2 s2 where b: "fillna ''bfill'' 6 long_gap_rows = Inr df2" "getitem df2 ''Voltage'' = Inr s2"
    and bw: "\<forall>i k v. i < k \<and> k < length ?v \<and> ?v ! k = Some v
                 \<and> (\<forall>n. i \<le> n \<and> n < k \<longrightarrow> ?v ! n = None)
                 \<longrightarrow> s2 ! i = (if k - i \<le> 6 then Some v else None)"
    by (elim exE conjE) (rule that; assumption)
  from bw[rule_format, of 3 9 239] bw[rule_format, of 2 9 239] gap_ge[of 3] gap_ge[of 2]
  have b32: "s2 ! 3 = Some 239" "s2 ! 2 = None" by simp_all
  \<comment> \<open>interpolation alone\<close>
  from T[THEN conjunct2, THEN conjunct2, THEN conjunct2, THEN conjunct1, THEN mp, OF long_gap_voltage]
  obtain t2 where i1: "getitem (interpolate long_gap_rows) ''Voltage'' = Inr t2"
    and mid: "\<forall>i j k a b. j < i \<and> i < k \<and> k < length ?v \<and> ?v ! j = Some a \<and> ?v ! k = Some b
                 \<and> (\<forall>n. j < n \<and> n < k \<longrightarrow> ?v ! n = None)
                 \<longrightarrow> t2 ! i = Some ((b - a) / real (k - j) * real (i - j) + a)"
    by (elim exE conjE) (rule that; assumption)
  from mid[rule_format, of 0 3 9 230 239] voltage_gap have i3: "t2 ! 3 = Some 233" by simp
  have dg: "getitem dead_rows ''Global_intensity'' = Inr [None, None]"
    by (simp add: getitem_def dead_rows_def)
  from T[THEN conjunct2, THEN conjunct2, THEN conjunct2, THEN conjunct1, THEN mp, OF dg]
  obtain t3 where i2: "getitem (interpolate dead_rows) ''Global_intensity'' = Inr t3"
    and same: "(\<forall>x\<in>set [None, None :: real option]. x = None) \<longrightarrow> t3 = [None, None]"
    by (elim exE conjE) (rule that; assumption)
  from same have i2': "t3 = [None, None]" by simp
  \<comment> \<open>the drop alone\<close>
  from T[THEN conjunct2, THEN conjunct2, THEN conjunct2, THEN conjunct2, THEN conjunct1,
      THEN mp, OF dead_aligned, THEN conjunct1]
  have dr: "index (dropna dead_rows) = []"
    by (simp add: dead_rows_def upt_conv_Cons)
  have w5: "\<exists>s'. getitem long_gap_filled ''Voltage'' = Inr s'
         \<and> s' ! 0 = Some 230 \<and> s' ! 5 = Some 230 \<and> s' ! 6 = Some 230
         \<and> s' ! 7 = Some 233 \<and> s' ! 8 = Some 236 \<and> s' ! 9 = Some 239"
    using s' v0 v5 v6 v7 v8 v9 by (intro exI[of _ s']) simp
  have w6: "\<exists>s'. getitem long_gap_filled ''Global_intensity'' = Inr s'
         \<and> s' ! 0 = Some 4 \<and> s' ! 1 = Some 4"
    using g' g0 by (intro exI[of _ g']) simp
  have w7: "\<exists>df1 s1. fillna ''ffill'' 6 long_gap_rows = Inr df1 \<and> getitem df1 ''Voltage'' = Inr s1
         \<and> s1 ! 6 = Some 230 \<and> s1 ! 7 = None"
    using f f67 by (intro exI[of _ df1] exI[of _ s1]) simp
  have w8: "\<exists>df1 s1. fillna ''bfill'' 6 long_gap_rows = Inr df1 \<and> getitem df1 ''Voltage'' = Inr s1
         \<and> s1 ! 3 = Some 239 \<and> s1 ! 2 = None"
    using b b32 by (intro exI[of _ df2] exI[of _ s2]) simp
  have w9: "\<exists>t2. getitem (interpolate long_gap_rows) ''Voltage'' = Inr t2 \<and> t2 ! 3 = Some 233"
    using i1 i3 by (intro exI[of _ t2]) simp
  have w10: "\<exists>t2. getitem (interpolate dead_rows) ''Global_intensity'' = Inr t2 \<and> t2 = [None, None]"
    using i2 i2' by (intro exI[of _ t3]) simp
  from scenario_eval w0 long_gap_eval dead_eval kept_all d0 w5 w6 w7 w8 w9 w10 dr
  show ?thesis by (intro conjI)
qed

text \<open>
  Claim C10. The rows of the output are rows of the input, in the input's order; the
  columns are the same; and wherever a kept row had a value in the input, the output has
  that value.
\<close>

theorem handle_missing_values_frame:
  assumes "handle_missing_values m df = Inr out"
  shows "\<exists>keep. index out = select_rows keep (index df)
           \<and> subseq (index out) (index df)
           \<and> map fst (cols out) = map fst (cols df)
           \<and> (\<forall>c s. getitem df c = Inr s \<longrightarrow>
                 (\<exists>s'. getitem out c = Inr s'
                    \<and> list_all2 kept (select_rows keep s) s'))"
proof -
  from handle_missing_values_Inr[OF assms] obtain d where
    out: "out = dropna (interpolate (map_columns (fill_series d 6) df))" by blast
  let ?F = "interpolate (map_columns (fill_series d 6) df)"
  let ?keep = "notna_all ?F"
  have idx: "index out = select_rows ?keep (index df)"
    by (simp add: out dropna_def interpolate_def)
  have names: "map fst (cols out) = map fst (cols df)"
    by (simp add: out dropna_def interpolate_def)
  have cells: "\<exists>s'. getitem out c = Inr s'
                 \<and> list_all2 kept (select_rows ?keep s) s'"
    if "getitem df c = Inr s" for c s
  proof -
    let ?s' = "select_rows ?keep (interpolate_linear (fill_series d 6 s))"
    have "getitem out c = Inr ?s'"
      by (simp add: out dropna_def interpolate_def getitem_mask_rows getitem_map_columns that)
    moreover have "list_all2 kept s (interpolate_linear (fill_series d 6 s))"
      by (rule keeps_trans[OF fill_series_keeps interpolate_linear_keeps])
    then have "list_all2 kept (select_rows ?keep s) ?s'"
      by (rule list_all2_select_rows)
    ultimately show ?thesis by blast
  qed
  from idx names cells subseq_select_rows[of ?keep "index df"] show ?thesis
    by (intro exI[of _ ?keep]) (simp add: idx)
qed

theorem handle_missing_values_frame_witness:
  "handle_missing_values ''ffill'' scenario_rows = Inr scenario_filled
   \<and> (\<exists>keep. index scenario_filled = select_rows keep (index scenario_rows)
         \<and> subseq (index scenario_filled) (index scenario_rows)
         \<and> map fst (cols scenario_filled) = map fst (cols scenario_rows)
         \<and> (\<forall>c s. getitem scenario_rows c = Inr s \<longrightarrow>
               (\<exists>s'. getitem scenario_filled c = Inr s'
                  \<and> list_all2 kept (select_rows keep s) s')))"
  using handle_missing_values_frame[OF scenario_eval] scenario_eval by blast

section \<open>Aggregation\<close>

lemma bucket_of_iff:
  assumes "0 < w"
  shows "(bucket_of origin w t = k) = (origin + k * w \<le> t \<and> t < origin + k * w + w)"
proof
  assume k: "bucket_of origin w t = k"
  have "t - origin = w * ((t - origin) div w) + (t - origin) mod w" by simp
  moreover have "0 \<le> (t - origin) mod w" "(t - origin) mod w < w" using assms by simp_all
  ultimately have "w * ((t - origin) div w) \<le> t - origin" "t - origin < w * ((t - origin) div w) + w"
    by linarith+
  with k show "origin + k * w \<le> t \<and> t < origin + k * w + w"
    by (simp add: bucket_of_def mult.commute)
next
  assume h: "origin + k * w \<le> t \<and> t < origin + k * w + w"
  have "(t - origin) div w = k"
  proof (rule int_div_pos_eq)
    show "t - origin = w * k + (t - origin - k * w)" by (simp add: mult.commute)
    show "0 \<le> t - origin - k * w" using h by simp
    show "t - origin - k * w < w" using h by simp
  qed
  then show "bucket_of origin w t = k" by (simp add: bucket_of_def)
qed

lemma bucket_cells_period:
  "0 < w \<Longrightarrow> bucket_cells origin w k idx s = period_cells (origin + k * w) w idx s"
  by (simp add: bucket_cells_def period_cells_def bucket_of_iff)

lemma fold_min_le: "x \<in> set (t # ts) \<Longrightarrow> fold min ts t \<le> (x::int)"
proof -
  assume x: "x \<in> set (t # ts)"
  have "fold min ts t = Min (set (t # ts))" by (simp only: Min.set_eq_fold)
  also from x have "\<dots> \<le> x" by (intro Min_le) simp_all
  finally show ?thesis .
qed

lemma fold_max_ge: "x \<in> set (t # ts) \<Longrightarrow> (x::int) \<le> fold max ts t"
proof -
  assume x: "x \<in> set (t # ts)"
  from x have "x \<le> Max (set (t # ts))" by (intro Max_ge) simp_all
  also have "\<dots> = fold max ts t" by (simp only: Max.set_eq_fold)
  finally show ?thesis .
qed

lemma bucket_range_upto: "\<exists>a b. snd (bucket_range w idx) = [a..b]"
proof (cases idx)
  case Nil
  then show ?thesis
    by (intro exI[of _ 1] exI[of _ 0]) (simp add: bucket_range_def)
next
  case (Cons t ts)
  then show ?thesis by (auto simp: bucket_range_def Let_def)
qed

lemma bucket_range_covers:
  assumes "0 < w" "x \<in> set idx"
  shows "bucket_of (fst (bucket_range w idx)) w x \<in> set (snd (bucket_range w idx))"
proof (cases idx)
  case Nil
  with assms show ?thesis by simp
next
  case (Cons t ts)
  let ?o = "start_day (fold min ts t)"
  from assms(2) Cons have "fold min ts t \<le> x" "x \<le> fold max ts t"
    by (auto intro: fold_min_le fold_max_ge)
  then have "(fold min ts t - ?o) div w \<le> (x - ?o) div w" "(x - ?o) div w \<le> (fold max ts t - ?o) div w"
    using assms(1) by (auto intro!: zdiv_mono1)
  then show ?thesis by (simp add: Cons bucket_range_def Let_def bucket_of_def)
qed

lemma labels_sorted:
  assumes "0 < (w::int)"
  shows "sorted_wrt (<) (map (\<lambda>k. origin + k * w) [a..b])"
proof -
  have "sorted_wrt (\<lambda>x y. origin + x * w < origin + y * w) [a..b]"
    by (rule sorted_wrt_mono_rel[of _ "(<)"]) (use assms in auto)
  then show ?thesis by (simp add: sorted_wrt_map)
qed

lemma labels_step:
  assumes "Suc i < length [a..b]"
  shows "map (\<lambda>k. origin + k * w) [a..b] ! Suc i = map (\<lambda>k. origin + k * (w::int)) [a..b] ! i + w"
proof -
  from assms have le: "a + int (Suc i) \<le> b" "a + int i \<le> b" by auto
  from assms have "i < length [a..b]" by simp
  with assms le show ?thesis
    by (simp add: nth_upto algebra_simps del: length_upto)
qed

lemma agg_columns_names:
  "agg_columns origin w ks df spec = Inr cs \<Longrightarrow> map fst cs = map fst spec"
  by (induction origin w ks df spec arbitrary: cs rule: agg_columns.induct)
     (auto split: sum.splits)

lemma agg_columns_lookup:
  "agg_columns origin w ks df spec = Inr cs \<Longrightarrow> distinct (map fst spec) \<Longrightarrow>
   (c, f) \<in> set spec \<Longrightarrow> getitem df c = Inr s \<Longrightarrow>
     map_of cs c = Some (map (\<lambda>k. agg_cells f (bucket_cells origin w k (index df) s)) ks)"
proof (induction origin w ks df spec arbitrary: cs rule: agg_columns.induct)
  case (1 origin width ks df)
  then show ?case by simp
next
  case (2 origin width ks df col g spec)
  from "2.prems"(1) obtain sc rest where sc: "getitem df col = Inr sc"
    and rest: "agg_columns origin width ks df spec = Inr rest"
    and cs: "cs = (col, map (\<lambda>k. agg_cells g (bucket_cells origin width k (index df) sc)) ks) # rest"
    by (auto split: sum.splits)
  show ?case
  proof (cases "c = col")
    case True
    with "2.prems"(2,3) have "f = g" by (auto simp: rev_image_eqI)
    with True sc "2.prems"(4) show ?thesis by (simp add: cs)
  next
    case False
    with "2.prems" have "(c, f) \<in> set spec" "distinct (map fst spec)" by auto
    from "2.IH"[OF sc rest this(2) this(1) "2.prems"(4)] False show ?thesis
      by (simp add: cs)
  qed
qed

lemma distinct_agg_spec: "distinct (map fst agg_spec)"
  by (simp add: agg_spec_def)

lemma aggregate_data_Inr:
  "aggregate_data w df = Inr out \<Longrightarrow>
     index out = map (\<lambda>k. fst (bucket_range w (index df)) + k * w) (snd (bucket_range w (index df)))
     \<and> agg_columns (fst (bucket_range w (index df))) w (snd (bucket_range w (index df))) df agg_spec
         = Inr (cols out)"
  by (auto simp: aggregate_data_def case_prod_unfold Let_def split: sum.splits)

lemma hour_eval: "aggregate_data 3600 hour_rows = Inr hour_aggregated"
  by code_simp

lemma gap_eval: "aggregate_data 3600 gap_rows = Inr gap_aggregated"
  by code_simp

subsection \<open>Claims about aggregate_data\<close>

text \<open>
  Claim C3. For a positive bucket width, the index of the table \<open>aggregate_data\<close> returns
  is strictly increasing and has no duplicates; each entry is one bucket width after the
  entry before it; and every input timestamp lies in the period of exactly one entry.
\<close>

theorem aggregate_data_index:
  assumes w: "0 < width" and run: "aggregate_data width df = Inr out"
  shows "sorted_wrt (<) (index out) \<and> distinct (index out)
         \<and> (\<forall>i. Suc i < length (index out) \<longrightarrow> index out ! Suc i = index out ! i + width)
         \<and> (\<forall>t\<in>set (index df). \<exists>!b. b \<in> set (index out) \<and> b \<le> t \<and> t < b + width)"
proof -
  let ?o = "fst (bucket_range width (index df))"
  let ?ks = "snd (bucket_range width (index df))"
  from bucket_range_upto obtain a b where ks: "?ks = [a..b]" by blast
  from aggregate_data_Inr[OF run] have idx: "index out = map (\<lambda>k. ?o + k * width) [a..b]"
    by (simp add: ks)
  have sorted: "sorted_wrt (<) (index out)"
    unfolding idx using w by (rule labels_sorted)
  then have dist: "distinct (index out)"
    by (simp add: strict_sorted_iff)
  have step: "\<forall>i. Suc i < length (index out) \<longrightarrow> index out ! Suc i = index out ! i + width"
    unfolding idx by (intro allI impI labels_step) simp
  have cover: "\<exists>!b. b \<in> set (index out) \<and> b \<le> t \<and> t < b + width" if t: "t \<in> set (index df)" for t
  proof (rule ex1I)
    let ?k = "bucket_of ?o width t"
    from bucket_range_covers[OF w t] have "?k \<in> set [a..b]" by (simp only: ks)
    then have "?o + ?k * width \<in> set (index out)" unfolding idx by auto
    moreover from bucket_of_iff[OF w, of ?o t ?k]
    have "?o + ?k * width \<le> t \<and> t < ?o + ?k * width + width" by simp
    ultimately show "?o + ?k * width \<in> set (index out) \<and> ?o + ?k * width \<le> t
                     \<and> t < ?o + ?k * width + width" by simp
  next
    fix b' assume b': "b' \<in> set (index out) \<and> b' \<le> t \<and> t < b' + width"
    then obtain k where k: "b' = ?o + k * width" unfolding idx by auto
    with b' have "?o + k * width \<le> t \<and> t < ?o + k * width + width" by simp
    with bucket_of_iff[OF w, of ?o t k] have "bucket_of ?o width t = k" by simp
    with k show "b' = ?o + bucket_of ?o width t * width" by simp
  qed
  from sorted dist step cover show ?thesis by blast
qed

theorem aggregate_data_index_witness:
  "aggregate_data 3600 gap_rows = Inr gap_aggregated
   \<and> index gap_aggregated = [1167609600, 1167613200, 1167616800]
   \<and> sorted_wrt (<) (index gap_aggregated) \<and> distinct (index gap_aggregated)
   \<and> index gap_aggregated ! 1 = index gap_aggregated ! 0 + 3600
   \<and> index gap_aggregated ! 2 = index gap_aggregated ! 1 + 3600
   \<and> (\<exists>!b. b \<in> set (index gap_aggregated) \<and> b \<le> 1167616900 \<and> 1167616900 < b + 3600)
   \<and> (\<exists>!b. b \<in> set (index gap_aggregated) \<and> b \<le> 1167609700 \<and> 1167609700 < b + 3600)"
proof -
  have "(0::int) < 3600" by simp
  note r = aggregate_data_index[OF this gap_eval]
  have len: "length (index gap_aggregated) = 3" by (simp add: gap_aggregated_def)
  have mem: "(1167616900::int) \<in> set (index gap_rows)" "(1167609700::int) \<in> set (index gap_rows)"
    by (simp_all add: gap_rows_def)
  from r have step: "\<And>i. Suc i < length (index gap_aggregated) \<Longrightarrow>
      index gap_aggregated ! Suc i = index gap_aggregated ! i + 3600" by blast
  from step[of 0] step[of 1] len
  have s: "index gap_aggregated ! 1 = index gap_aggregated ! 0 + 3600"
    "index gap_aggregated ! 2 = index gap_aggregated ! 1 + 3600"
    by (simp_all add: numeral_2_eq_2)
  from r mem have c: "\<exists>!b. b \<in> set (index gap_aggregated) \<and> b \<le> 1167616900 \<and> 1167616900 < b + 3600"
    "\<exists>!b. b \<in> set (index gap_aggregated) \<and> b \<le> 1167609700 \<and> 1167609700 < b + 3600"
    by blast+
  have "index gap_aggregated = [1167609600, 1167613200, 1167616800]"
    by (simp add: gap_aggregated_def)
  with r s c gap_eval show ?thesis by blast
qed

text \<open>
  Claim C4. In each period of the output, the four power, voltage and intensity columns
  hold the arithmetic mean of the input cells of that period and the three sub-metering
  columns hold their sum (missing cells are skipped; a mean over none is missing). Sixty
  one-minute rows of 1.0 sum to 60.0 and sixty rows at 230.0 average to 230.0.
\<close>

theorem aggregate_data_mean_and_sum:
  assumes w: "0 < width" and run: "aggregate_data width df = Inr out"
    and i: "i < length (index out)" and s: "getitem df c = Inr s"
  shows "(c \<in> {''Global_active_power'', ''Global_reactive_power'', ''Voltage'', ''Global_intensity''} \<longrightarrow>
            (\<exists>s'. getitem out c = Inr s' \<and>
               s' ! i = (let xs = valid_cells (period_cells (index out ! i) width (index df) s)
                         in if xs = [] then None else Some (sum_list xs / real (length xs)))))
         \<and> (c \<in> {''Sub_metering_1'', ''Sub_metering_2'', ''Sub_metering_3''} \<longrightarrow>
            (\<exists>s'. getitem out c = Inr s' \<and>
               s' ! i = Some (sum_list (valid_cells (period_cells (index out ! i) width (index df) s)))))
         \<and> aggregate_data 3600 hour_rows = Inr hour_aggregated"
proof -
  let ?o = "fst (bucket_range width (index df))"
  let ?ks = "snd (bucket_range width (index df))"
  from aggregate_data_Inr[OF run] have idx: "index out = map (\<lambda>k. ?o + k * width) ?ks"
    and columns: "agg_columns ?o width ?ks df agg_spec = Inr (cols out)" by simp_all
  from i idx have ik: "i < length ?ks" by simp
  with idx have label: "index out ! i = ?o + ?ks ! i * width" by simp
  have cell: "\<exists>s'. getitem out c = Inr s' \<and>
                s' ! i = agg_cells f (period_cells (index out ! i) width (index df) s)"
    if "(c, f) \<in> set agg_spec" for f
  proof -
    from agg_columns_lookup[OF columns distinct_agg_spec that s]
    have "getitem out c = Inr (map (\<lambda>k. agg_cells f (bucket_cells ?o width k (index df) s)) ?ks)"
      by (simp add: getitem_def)
    moreover have "map (\<lambda>k. agg_cells f (bucket_cells ?o width k (index df) s)) ?ks ! i
                   = agg_cells f (period_cells (index out ! i) width (index df) s)"
      using ik w by (simp add: bucket_cells_period label)
    ultimately show ?thesis by blast
  qed
  have means: "\<exists>s'. getitem out c = Inr s' \<and>
               s' ! i = (let xs = valid_cells (period_cells (index out ! i) width (index df) s)
                         in if xs = [] then None else Some (sum_list xs / real (length xs)))"
    if "c \<in> {''Global_active_power'', ''Global_reactive_power'', ''Voltage'', ''Global_intensity''}"
  proof -
    from that have "(c, Mean) \<in> set agg_spec" by (auto simp: agg_spec_def)
    from cell[OF this] obtain s' where s': "getitem out c = Inr s'"
      "s' ! i = agg_cells Mean (period_cells (index out ! i) width (index df) s)" by blast
    from s'(2) have "s' ! i = (let xs = valid_cells (period_cells (index out ! i) width (index df) s)
                         in if xs = [] then None else Some (sum_list xs / real (length xs)))"
      by (simp add: mean_def Let_def)
    with s'(1) show ?thesis by blast
  qed
  have sums: "\<exists>s'. getitem out c = Inr s' \<and>
               s' ! i = Some (sum_list (valid_cells (period_cells (index out ! i) width (index df) s)))"
    if "c \<in> {''Sub_metering_1'', ''Sub_metering_2'', ''Sub_metering_3''}"
  proof -
    from that have "(c, Sum) \<in> set agg_spec" by (auto simp: agg_spec_def)
    from cell[OF this] show ?thesis by simp
  qed
  from means sums hour_eval show ?thesis by blast
qed

theorem aggregate_data_mean_and_sum_witness:
  "aggregate_data 3600 hour_rows = Inr hour_aggregated
   \<and> getitem hour_aggregated ''Voltage'' = Inr [Some 230]
   \<and> valid_cells (period_cells 1167609600 3600 (index hour_rows) (replicate 60 (Some 230)))
       = replicate 60 230
   \<and> getitem hour_aggregated ''Sub_metering_1'' = Inr [Some 60]
   \<and> valid_cells (period_cells 1167609600 3600 (index hour_rows) (replicate 60 (Some 1)))
       = replicate 60 1"
proof -
  have w: "(0::int) < 3600" by simp
  have i: "0 < length (index hour_aggregated)" by (simp add: hour_aggregated_def)
  have v: "getitem hour_rows ''Voltage'' = Inr (replicate 60 (Some 230))"
    by (simp add: getitem_def hour_rows_def)
  have m: "getitem hour_rows ''Sub_metering_1'' = Inr (replicate 60 (Some 1))"
    by (simp add: getitem_def hour_rows_def)
  have cv: "valid_cells (period_cells 1167609600 3600 (index hour_rows) (replicate 60 (Some 230)))
              = replicate 60 230"
    by code_simp
  have cm: "valid_cells (period_cells 1167609600 3600 (index hour_rows) (replicate 60 (Some 1)))
              = replicate 60 1"
    by code_simp
  from aggregate_data_mean_and_sum[OF w hour_eval i v]
  have "getitem hour_aggregated ''Voltage'' = Inr [Some 230]"
    by (simp add: getitem_def hour_aggregated_def)
  moreover from aggregate_data_mean_and_sum[OF w hour_eval i m]
  have "getitem hour_aggregated ''Sub_metering_1'' = Inr [Some 60]"
    by (simp add: getitem_def hour_aggregated_def)
  ultimately show ?thesis using hour_eval cv cm by simp
qed

section \<open>Loading the processed table\<close>

lemma load_not_found_iff:
  "(\<exists>msg. load_processed_data rd dir fs name = Inl (FileNotFoundError msg))
     = (\<not> os_path_exists fs (os_path_join dir name))"
  by (auto simp: load_processed_data_def Let_def os_path_exists_def
           split: option.splits node.splits sum.splits)

lemma load_missing:
  "\<not> os_path_exists fs (os_path_join dir name) \<Longrightarrow>
     load_processed_data rd dir fs name
       = Inl (FileNotFoundError (''Processed data not found at '' @ os_path_join dir name))"
  by (simp add: load_processed_data_def Let_def)

lemma load_present:
  "fs (os_path_join dir name) = Some (File text) \<Longrightarrow> rd text (Some 0) True = Inr df \<Longrightarrow>
     load_processed_data rd dir fs name = Inr df"
  by (simp add: load_processed_data_def Let_def os_path_exists_def)

lemma disk_join:
  "os_path_join ''data/processed'' ''hourly_consumption.csv''
     = ''data/processed/hourly_consumption.csv''"
  "os_path_join ''data/processed'' ''missing.csv'' = ''data/processed/missing.csv''"
  by (simp_all add: os_path_join_def)

text \<open>
  Claim C8. \<open>load_processed_data\<close> raises FileNotFoundError, an error of its own kind,
  exactly when nothing exists at the processed directory joined with the name, and its
  message names that path. When a file is there, the result is the table pandas' reader
  returns for its text with the first column as the parsed date index.
\<close>

theorem load_processed_data_not_found:
  "((\<exists>msg. load_processed_data rd dir fs name = Inl (FileNotFoundError msg))
      = (\<not> os_path_exists fs (os_path_join dir name)))
   \<and> (\<not> os_path_exists fs (os_path_join dir name) \<longrightarrow>
        load_processed_data rd dir fs name
          = Inl (FileNotFoundError (''Processed data not found at '' @ os_path_join dir name)))
   \<and> (fs (os_path_join dir name) = Some (File text) \<and> rd text (Some 0) True = Inr df \<longrightarrow>
        load_processed_data rd dir fs name = Inr df)"
  using load_not_found_iff load_missing load_present by blast

theorem load_processed_data_not_found_witness:
  "load_processed_data reader ''data/processed'' disk ''missing.csv''
     = Inl (FileNotFoundError ''Processed data not found at data/processed/missing.csv'')
   \<and> load_processed_data reader ''data/processed'' disk ''hourly_consumption.csv''
     = Inr hour_aggregated"
proof -
  note T = load_processed_data_not_found
  have absent: "\<not> os_path_exists disk (os_path_join ''data/processed'' ''missing.csv'')"
    by (simp add: disk_join os_path_exists_def disk_def)
  have present: "disk (os_path_join ''data/processed'' ''hourly_consumption.csv'') = Some (File ''hourly'')"
    by (simp add: disk_join disk_def)
  have rd: "reader ''hourly'' (Some 0) True = Inr hour_aggregated"
    by (simp add: reader_def)
  from T[of reader "''data/processed''" disk "''missing.csv''", THEN conjunct2, THEN conjunct1] absent
  have "load_processed_data reader ''data/processed'' disk ''missing.csv''
     = Inl (FileNotFoundError ''Processed data not found at data/processed/missing.csv'')"
    by (simp add: disk_join)
  moreover
  from T[of reader "''data/processed''" disk "''hourly_consumption.csv''" "''hourly''" hour_aggregated,
      THEN conjunct2, THEN conjunct2] present rd
  have "load_processed_data reader ''data/processed'' disk ''hourly_consumption.csv''
     = Inr hour_aggregated"
    by blast
  ultimately show ?thesis by blast
qed

end
